theory Spec2Isabelle
  imports Complex_Main
begin

section \<open>Contagion simulation: the model classes of \<^verbatim>\<open>model.py\<close>\<close>

text \<open>
  The classes \<^verbatim>\<open>Point\<close>, \<^verbatim>\<open>Cell\<close> and \<^verbatim>\<open>Model\<close> are embedded as follows.
  \<^item> Python's unbounded \<^verbatim>\<open>int\<close> is \<open>int\<close>. A coordinate is the real number that its
    \<^verbatim>\<open>float\<close> stands for. The distance between two points is computed in floating-point
    arithmetic, with results that may be infinite or not a number and operations that may
    raise; that arithmetic is a parameter \<open>fa\<close> of the functions that compute a distance,
    and \<open>ieee\<close> is the instance for IEEE 754 doubles, rounding to nearest, ties to even.
  \<^item> The module \<^verbatim>\<open>constants\<close> is imported by the source and is not part of it: its
    values are a parameter \<open>k\<close> of every function that reads one.
  \<^item> \<^verbatim>\<open>Cell\<close> defines no \<^verbatim>\<open>__eq__\<close>, so \<^verbatim>\<open>==\<close> and \<^verbatim>\<open>in\<close> on cells compare object
    identity. Cells therefore live in a store, at addresses, and a population is a list of
    addresses.
  \<^item> \<^verbatim>\<open>random()\<close> reads the next element of a stream of draws \<open>rnd\<close>; the store counts
    the draws taken so far.
  \<^item> A raised exception is the \<open>Inl\<close> of a sum; a loop that an exception leaves returns the
    exception together with the store as the loop left it.
\<close>

subsection \<open>Configuration\<close>

record constants =
  VULNERABLE :: int
  INFECTED :: int
  IMMUNE :: int
  RECOVERY_PERIOD :: int
  CELL_RADIUS :: real
  BOUNDS_WIDTH :: real
  BOUNDS_HEIGHT :: real
  MAX_X :: real
  MIN_X :: real
  MAX_Y :: real
  MIN_Y :: real

subsection \<open>Exceptions and floating-point numbers\<close>

datatype error = ValueError string | OverflowError

datatype pyfloat = Finite real | PosInf | NegInf | NaN

text \<open>
  The operations of the expression \<^verbatim>\<open>sqrt((a - b) ** 2 + (c - d) ** 2)\<close>: \<^verbatim>\<open>-\<close> and \<^verbatim>\<open>+\<close>
  return a float, \<^verbatim>\<open>** 2\<close> and \<^verbatim>\<open>math.sqrt\<close> return a float or raise.
\<close>

record arith =
  f_sub :: "pyfloat \<Rightarrow> pyfloat \<Rightarrow> pyfloat"
  f_add :: "pyfloat \<Rightarrow> pyfloat \<Rightarrow> pyfloat"
  f_pow2 :: "pyfloat \<Rightarrow> error + pyfloat"
  f_sqrt :: "pyfloat \<Rightarrow> error + pyfloat"

text \<open>\<^verbatim>\<open><\<close> on floats is exact: no rounding, false when either side is not a number.\<close>

fun pyfloat_less :: "pyfloat \<Rightarrow> pyfloat \<Rightarrow> bool" where
  "pyfloat_less (Finite x) (Finite y) = (x < y)"
| "pyfloat_less (Finite x) PosInf = True"
| "pyfloat_less NegInf (Finite y) = True"
| "pyfloat_less NegInf PosInf = True"
| "pyfloat_less a b = False"

subsection \<open>IEEE 754 double arithmetic\<close>

text \<open>Rounding of a real to the nearest integer, ties to the even one.\<close>

definition rne :: "real \<Rightarrow> int" where
  "rne y =
     (let f = \<lfloor>y\<rfloor>; d = y - of_int f in
      if d < 1 / 2 then f
      else if 1 / 2 < d then f + 1
      else if even f then f else f + 1)"

text \<open>
  Rounding of a real to a double: 53 significant bits, exponents from \<open>-1022\<close> (below
  which the spacing stays \<open>2 ^ -1074\<close>), and infinity from \<open>2 ^ 1024 - 2 ^ 970\<close> on, the
  midpoint between the largest double and \<open>2 ^ 1024\<close>.
\<close>

definition round_double :: "real \<Rightarrow> pyfloat" where
  "round_double x =
     (if x = 0 then Finite 0
      else if 2 ^ 1024 - 2 ^ 970 \<le> \<bar>x\<bar> then (if 0 < x then PosInf else NegInf)
      else
        (let e = max \<lfloor>log 2 \<bar>x\<bar>\<rfloor> (- 1022);
             q = 2 powr of_int (e - 52)
         in Finite (of_int (rne (x / q)) * q)))"

fun pyfloat_neg :: "pyfloat \<Rightarrow> pyfloat" where
  "pyfloat_neg (Finite x) = Finite (- x)"
| "pyfloat_neg PosInf = NegInf"
| "pyfloat_neg NegInf = PosInf"
| "pyfloat_neg NaN = NaN"

fun ieee_add :: "pyfloat \<Rightarrow> pyfloat \<Rightarrow> pyfloat" where
  "ieee_add (Finite x) (Finite y) = round_double (x + y)"
| "ieee_add NaN b = NaN"
| "ieee_add a NaN = NaN"
| "ieee_add PosInf NegInf = NaN"
| "ieee_add NegInf PosInf = NaN"
| "ieee_add PosInf b = PosInf"
| "ieee_add a PosInf = PosInf"
| "ieee_add NegInf b = NegInf"
| "ieee_add a NegInf = NegInf"

definition ieee_sub :: "pyfloat \<Rightarrow> pyfloat \<Rightarrow> pyfloat" where
  "ieee_sub a b = ieee_add a (pyfloat_neg b)"

text \<open>\<^verbatim>\<open>x ** 2\<close>: \<^verbatim>\<open>OverflowError\<close> when the square of a finite float is out of range.\<close>

fun ieee_pow2 :: "pyfloat \<Rightarrow> error + pyfloat" where
  "ieee_pow2 (Finite x) =
     (case round_double (x * x) of Finite r \<Rightarrow> Inr (Finite r) | _ \<Rightarrow> Inl OverflowError)"
| "ieee_pow2 PosInf = Inr PosInf"
| "ieee_pow2 NegInf = Inr PosInf"
| "ieee_pow2 NaN = Inr NaN"

fun ieee_sqrt :: "pyfloat \<Rightarrow> error + pyfloat" where
  "ieee_sqrt (Finite x) =
     (if x < 0 then Inl (ValueError ''math domain error'')
      else Inr (round_double (sqrt x)))"
| "ieee_sqrt PosInf = Inr PosInf"
| "ieee_sqrt NegInf = Inl (ValueError ''math domain error'')"
| "ieee_sqrt NaN = Inr NaN"

definition ieee :: arith where
  "ieee = \<lparr>f_sub = ieee_sub, f_add = ieee_add, f_pow2 = ieee_pow2, f_sqrt = ieee_sqrt\<rparr>"

subsection \<open>Point\<close>

text \<open>The fields \<^verbatim>\<open>x\<close> and \<^verbatim>\<open>y\<close> of the source are \<open>p_x\<close> and \<open>p_y\<close>.\<close>

record Point =
  p_x :: real
  p_y :: real

definition Point_add :: "Point \<Rightarrow> Point \<Rightarrow> Point" where
  "Point_add self other = \<lparr>p_x = p_x self + p_x other, p_y = p_y self + p_y other\<rparr>"

text \<open>
  \<^verbatim>\<open>distance\<close>: the two squares are computed left to right, and an exception raised by
  one of the operations is the result.
\<close>

definition Point_distance :: "arith \<Rightarrow> Point \<Rightarrow> Point \<Rightarrow> error + pyfloat" where
  "Point_distance fa self other =
     (case f_pow2 fa (f_sub fa (Finite (p_x self)) (Finite (p_x other))) of
        Inl e \<Rightarrow> Inl e
      | Inr sx \<Rightarrow>
          (case f_pow2 fa (f_sub fa (Finite (p_y self)) (Finite (p_y other))) of
             Inl e \<Rightarrow> Inl e
           | Inr sy \<Rightarrow> f_sqrt fa (f_add fa sx sy)))"

subsection \<open>Cell\<close>

record Cell =
  location :: Point
  direction :: Point
  sickness :: int

text \<open>The constructor: \<^verbatim>\<open>sickness\<close> is the class attribute, \<^verbatim>\<open>constants.VULNERABLE\<close>.\<close>

definition Cell_init :: "constants \<Rightarrow> Point \<Rightarrow> Point \<Rightarrow> Cell" where
  "Cell_init k loc dir = \<lparr>location = loc, direction = dir, sickness = VULNERABLE k\<rparr>"

definition is_vulnerable :: "constants \<Rightarrow> Cell \<Rightarrow> bool" where
  "is_vulnerable k self = (if sickness self = VULNERABLE k then True else False)"

definition is_infected :: "constants \<Rightarrow> Cell \<Rightarrow> bool" where
  "is_infected k self = (if sickness self \<ge> INFECTED k then True else False)"

definition is_immune :: "constants \<Rightarrow> Cell \<Rightarrow> bool" where
  "is_immune k self = (if sickness self = IMMUNE k then True else False)"

definition contract_disease :: "constants \<Rightarrow> Cell \<Rightarrow> Cell" where
  "contract_disease k self = self\<lparr>sickness := INFECTED k\<rparr>"

definition immunize :: "constants \<Rightarrow> Cell \<Rightarrow> Cell" where
  "immunize k self = self\<lparr>sickness := IMMUNE k\<rparr>"

definition Cell_tick :: "constants \<Rightarrow> Cell \<Rightarrow> Cell" where
  "Cell_tick k self =
     (let s1 = self\<lparr>location := Point_add (location self) (direction self)\<rparr> in
      if is_infected k s1 then
        (let s2 = s1\<lparr>sickness := sickness s1 + 1\<rparr> in
         if sickness s2 \<ge> RECOVERY_PERIOD k then immunize k s2 else s2)
      else s1)"

definition color :: "constants \<Rightarrow> Cell \<Rightarrow> string" where
  "color k self =
     (if is_infected k self then ''red''
      else if is_immune k self then ''blue''
      else ''gray'')"

subsection \<open>The store\<close>

text \<open>
  \<open>heap\<close> holds the \<^verbatim>\<open>Cell\<close> objects, \<open>fresh\<close> is the first address never handed out,
  \<open>drawn\<close> counts the calls of \<^verbatim>\<open>random()\<close>, and \<open>calls\<close> records every invocation of
  \<^verbatim>\<open>contact_with\<close> as the pair (self, other), oldest first.
\<close>

record world =
  heap :: "nat \<Rightarrow> Cell"
  fresh :: nat
  drawn :: nat
  calls :: "(nat \<times> nat) list"

text \<open>\<^verbatim>\<open>self.contact_with(other)\<close>, with \<open>self\<close> and \<open>other\<close> the addresses of the two cells.\<close>

definition contact_with :: "constants \<Rightarrow> nat \<Rightarrow> nat \<Rightarrow> world \<Rightarrow> world" where
  "contact_with k self other w =
     (let w1 = w\<lparr>calls := calls w @ [(self, other)]\<rparr> in
      if is_infected k (heap w1 self) \<and> is_vulnerable k (heap w1 other) then
        w1\<lparr>heap := (heap w1)(other := contract_disease k (heap w1 other))\<rparr>
      else if is_vulnerable k (heap w1 self) \<and> is_infected k (heap w1 other) then
        w1\<lparr>heap := (heap w1)(self := contract_disease k (heap w1 self))\<rparr>
      else w1)"

subsection \<open>Model\<close>

record Model =
  population :: "nat list"
  time :: int

definition random :: "(nat \<Rightarrow> real) \<Rightarrow> world \<Rightarrow> real \<times> world" where
  "random rnd w = (rnd (drawn w), w\<lparr>drawn := drawn w + 1\<rparr>)"

definition random_location :: "constants \<Rightarrow> (nat \<Rightarrow> real) \<Rightarrow> world \<Rightarrow> Point \<times> world" where
  "random_location k rnd w =
     (let (r1, w1) = random rnd w;
          start_x = r1 * BOUNDS_WIDTH k - MAX_X k;
          (r2, w2) = random rnd w1;
          start_y = r2 * BOUNDS_HEIGHT k - MAX_Y k
      in (\<lparr>p_x = start_x, p_y = start_y\<rparr>, w2))"

definition random_direction :: "(nat \<Rightarrow> real) \<Rightarrow> real \<Rightarrow> world \<Rightarrow> Point \<times> world" where
  "random_direction rnd speed w =
     (let (r, w1) = random rnd w;
          random_angle = 2 * pi * r;
          dir_x = cos random_angle * speed;
          dir_y = sin random_angle * speed
      in (\<lparr>p_x = dir_x, p_y = dir_y\<rparr>, w1))"

text \<open>Allocation of a new \<^verbatim>\<open>Cell\<close> object: it gets the first unused address.\<close>

definition new_Cell :: "constants \<Rightarrow> Point \<Rightarrow> Point \<Rightarrow> world \<Rightarrow> nat \<times> world" where
  "new_Cell k loc dir w =
     (fresh w, w\<lparr>heap := (heap w)(fresh w := Cell_init k loc dir), fresh := fresh w + 1\<rparr>)"

text \<open>
  One pass through the body shared by the three \<^verbatim>\<open>for\<close> loops of \<^verbatim>\<open>Model.__init__\<close>:
  draw a location, draw a direction, build the cell, assign \<^verbatim>\<open>sickness\<close> when the loop
  does so (\<open>mark = None\<close> in the first loop, which leaves the class attribute), append.
\<close>

definition spawn ::
  "constants \<Rightarrow> (nat \<Rightarrow> real) \<Rightarrow> real \<Rightarrow> int option \<Rightarrow> nat list \<times> world \<Rightarrow> nat list \<times> world" where
  "spawn k rnd speed mark pw =
     (let (pop, w) = pw;
          (start_loc, w1) = random_location k rnd w;
          (start_dir, w2) = random_direction rnd speed w1;
          (a, w3) = new_Cell k start_loc start_dir w2;
          w4 = (case mark of
                  None \<Rightarrow> w3
                | Some v \<Rightarrow> w3\<lparr>heap := (heap w3)(a := (heap w3 a)\<lparr>sickness := v\<rparr>)\<rparr>)
      in (pop @ [a], w4))"

text \<open>\<^verbatim>\<open>for _ in range(0, n)\<close>: the body, then the remaining iterations.\<close>

primrec populate ::
  "constants \<Rightarrow> (nat \<Rightarrow> real) \<Rightarrow> real \<Rightarrow> int option \<Rightarrow> nat \<Rightarrow> nat list \<times> world \<Rightarrow> nat list \<times> world" where
  "populate k rnd speed mark 0 pw = pw"
| "populate k rnd speed mark (Suc n) pw =
     populate k rnd speed mark n (spawn k rnd speed mark pw)"

text \<open>
  \<^verbatim>\<open>Model(cells, speed, start_infected, start_immune)\<close>. The result pairs the outcome with
  the store the call leaves behind; \<^verbatim>\<open>range(0, n)\<close> runs \<open>nat n\<close> times.
\<close>

definition Model_init ::
  "constants \<Rightarrow> (nat \<Rightarrow> real) \<Rightarrow> int \<Rightarrow> real \<Rightarrow> int \<Rightarrow> int \<Rightarrow> world \<Rightarrow> (error + Model) \<times> world" where
  "Model_init k rnd cells speed start_infected start_immune w =
     (if start_infected \<ge> cells \<or> start_infected \<le> 0 then
        (Inl (ValueError ''Some number of the Cell objects must begin infected.''), w)
      else if start_immune \<ge> cells \<or> start_immune < 0 then
        (Inl (ValueError ''Immune cells must be less than the number of Cell objects.''), w)
      else if start_immune + start_infected \<ge> cells then
        (Inl (ValueError
           ''Immune and Infected cells must be less than the number of Cell objects.''), w)
      else
        (let pw1 = populate k rnd speed None
                     (nat (cells - start_infected - start_immune)) ([], w);
             pw2 = populate k rnd speed (Some (INFECTED k)) (nat start_infected) pw1;
             pw3 = populate k rnd speed (Some (IMMUNE k)) (nat start_immune) pw2
         in (Inr \<lparr>population = fst pw3, time = 0\<rparr>, snd pw3)))"

text \<open>
  The test \<^verbatim>\<open>cell.location.distance(other.location) < constants.CELL_RADIUS\<close> for the
  cells at two addresses: its truth value, or the exception the distance raises.
\<close>

definition within_radius :: "arith \<Rightarrow> constants \<Rightarrow> world \<Rightarrow> nat \<Rightarrow> nat \<Rightarrow> error + bool" where
  "within_radius fa k w cell other =
     (case Point_distance fa (location (heap w cell)) (location (heap w other)) of
        Inl e \<Rightarrow> Inl e
      | Inr d \<Rightarrow> Inr (pyfloat_less d (Finite (CELL_RADIUS k))))"

text \<open>
  The \<^verbatim>\<open>while\<close> loop of \<^verbatim>\<open>check_contacts\<close> for one \<open>cell\<close> of the outer loop, from index
  \<open>i\<close> on. Both branches of the inner \<^verbatim>\<open>if\<close> advance \<open>i\<close>. The result is \<open>None\<close> with the
  store when the loop ends, and the exception with the store when the test raises.
\<close>

function contacts_while ::
  "arith \<Rightarrow> constants \<Rightarrow> nat list \<Rightarrow> nat \<Rightarrow> nat list \<Rightarrow> nat \<Rightarrow> world \<Rightarrow> error option \<times> world" where
  "contacts_while fa k pop cell used_cells i w =
     (if i < length pop then
        (if cell = pop ! i \<or> pop ! i \<in> set used_cells then
           contacts_while fa k pop cell used_cells (i + 1) w
         else
           (case within_radius fa k w cell (pop ! i) of
              Inl e \<Rightarrow> (Some e, w)
            | Inr near \<Rightarrow>
                if near then
                  contacts_while fa k pop cell used_cells (i + 1)
                    (contact_with k cell (pop ! i) w)
                else
                  contacts_while fa k pop cell used_cells (i + 1) w))
      else (None, w))"
  by pat_completeness auto
termination
  by (relation "measure (\<lambda>(fa, k, pop, cell, used_cells, i, w). length pop - i)") auto

declare contacts_while.simps [simp del]

text \<open>
  The outer \<^verbatim>\<open>for cell in self.population\<close>, over the cells still to visit; an exception
  of the inner loop ends it.
\<close>

fun contacts_for ::
  "arith \<Rightarrow> constants \<Rightarrow> nat list \<Rightarrow> nat list \<Rightarrow> nat list \<Rightarrow> world \<Rightarrow> error option \<times> world" where
  "contacts_for fa k pop used_cells [] w = (None, w)"
| "contacts_for fa k pop used_cells (cell # rest) w =
     (case contacts_while fa k pop cell (used_cells @ [cell]) 0 w of
        (Some e, w') \<Rightarrow> (Some e, w')
      | (None, w') \<Rightarrow> contacts_for fa k pop (used_cells @ [cell]) rest w')"

text \<open>
  \<^verbatim>\<open>check_contacts\<close>: the outcome (\<open>None\<close> for a return, the exception otherwise) and the
  model and store it leaves.
\<close>

definition check_contacts ::
  "arith \<Rightarrow> constants \<Rightarrow> Model \<times> world \<Rightarrow> error option \<times> Model \<times> world" where
  "check_contacts fa k mw =
     (let (self, w) = mw;
          (r, w') = contacts_for fa k (population self) [] (population self) w
      in (r, self, w'))"

text \<open>\<^verbatim>\<open>is_complete\<close>: the loop returns at the first infected cell.\<close>

fun complete_from :: "constants \<Rightarrow> (nat \<Rightarrow> Cell) \<Rightarrow> nat list \<Rightarrow> bool" where
  "complete_from k h [] = True"
| "complete_from k h (cell # rest) =
     (if is_infected k (h cell) then False else complete_from k h rest)"

definition is_complete :: "constants \<Rightarrow> Model \<times> world \<Rightarrow> bool" where
  "is_complete k mw = (let (self, w) = mw in complete_from k (heap w) (population self))"

subsection \<open>The contact pass, unrolled\<close>

text \<open>\<^verbatim>\<open>contact_with\<close> applied over a list of pairs (self, other), first pair first.\<close>

definition apply_contacts :: "constants \<Rightarrow> (nat \<times> nat) list \<Rightarrow> world \<Rightarrow> world" where
  "apply_contacts k ps w = foldl (\<lambda>w' (a, b). contact_with k a b w') w ps"

text \<open>
  The pairs (cell, other) that the inner loop hands to \<^verbatim>\<open>contact_with\<close> for one \<open>cell\<close>, in
  order, and the exception that ends it if there is one, when \<open>near a b\<close> is the outcome
  of the radius test for \<open>a\<close> and \<open>b\<close>.
\<close>

fun scan_row ::
  "(nat \<Rightarrow> nat \<Rightarrow> error + bool) \<Rightarrow> nat \<Rightarrow> nat list \<Rightarrow> nat list \<Rightarrow> (nat \<times> nat) list \<times> error option" where
  "scan_row near cell used_cells [] = ([], None)"
| "scan_row near cell used_cells (p # ps) =
     (if cell = p \<or> p \<in> set used_cells then scan_row near cell used_cells ps
      else
        (case near cell p of
           Inl e \<Rightarrow> ([], Some e)
         | Inr t \<Rightarrow>
             (let (xs, r) = scan_row near cell used_cells ps
              in ((if t then [(cell, p)] else []) @ xs, r))))"

text \<open>The same for the two loops together.\<close>

fun scan_all ::
  "(nat \<Rightarrow> nat \<Rightarrow> error + bool) \<Rightarrow> nat list \<Rightarrow> nat list \<Rightarrow> nat list \<Rightarrow> (nat \<times> nat) list \<times> error option" where
  "scan_all near pop used_cells [] = ([], None)"
| "scan_all near pop used_cells (cell # rest) =
     (case scan_row near cell (used_cells @ [cell]) pop of
        (xs, Some e) \<Rightarrow> (xs, Some e)
      | (xs, None) \<Rightarrow>
          (let (ys, r) = scan_all near pop (used_cells @ [cell]) rest in (xs @ ys, r)))"

text \<open>
  The pairs of a pass in which no test raises, when \<open>near a b\<close> tells whether the test for
  \<open>a\<close> and \<open>b\<close> is true.
\<close>

fun contact_pairs ::
  "(nat \<Rightarrow> nat \<Rightarrow> bool) \<Rightarrow> nat list \<Rightarrow> nat list \<Rightarrow> nat list \<Rightarrow> (nat \<times> nat) list" where
  "contact_pairs near pop used_cells [] = []"
| "contact_pairs near pop used_cells (cell # rest) =
     map (Pair cell)
       (filter (\<lambda>p. \<not> (cell = p \<or> p \<in> set (used_cells @ [cell])) \<and> near cell p) pop)
     @ contact_pairs near pop (used_cells @ [cell]) rest"

text \<open>How often a log of invocations has \<^verbatim>\<open>contact_with\<close> between \<open>a\<close> and \<open>b\<close>, either way round.\<close>

definition contacts_between :: "(nat \<times> nat) list \<Rightarrow> nat \<Rightarrow> nat \<Rightarrow> nat" where
  "contacts_between cs a b = count_list cs (a, b) + count_list cs (b, a)"

text \<open>\<open>a\<close> stands before \<open>b\<close> in a list.\<close>

fun before :: "nat list \<Rightarrow> nat \<Rightarrow> nat \<Rightarrow> bool" where
  "before [] a b = False"
| "before (c # cs) a b = (c = a \<and> b \<in> set cs \<or> before cs a b)"

text \<open>The unordered pairs of a list of pairs.\<close>

definition unordered :: "(nat \<times> nat) list \<Rightarrow> nat set set" where
  "unordered ps = (\<lambda>(a, b). {a, b}) ` set ps"

text \<open>
  A cell is exposed when one of the pairs joins it to a cell that \<^verbatim>\<open>is_infected\<close> in the
  store.
\<close>

definition exposed :: "constants \<Rightarrow> world \<Rightarrow> (nat \<times> nat) list \<Rightarrow> nat \<Rightarrow> bool" where
  "exposed k w ps x =
     (\<exists>(a, b) \<in> set ps. a = x \<and> is_infected k (heap w b) \<or> b = x \<and> is_infected k (heap w a))"

subsection \<open>Concrete configurations and stores\<close>

text \<open>
  A configuration with the given disease markers and recovery period, a contact radius of
  \<open>3/2\<close> and the box \<open>[-10, 10] \<times> [-10, 10]\<close>; a cell on the x axis with a given
  sickness; a store holding a given list of cells at the addresses \<open>0, 1, \<dots>\<close>.
\<close>

definition constants_of :: "int \<Rightarrow> int \<Rightarrow> int \<Rightarrow> int \<Rightarrow> constants" where
  "constants_of v i m r =
     \<lparr>VULNERABLE = v, INFECTED = i, IMMUNE = m, RECOVERY_PERIOD = r, CELL_RADIUS = 3 / 2,
      BOUNDS_WIDTH = 20, BOUNDS_HEIGHT = 20, MAX_X = 10, MIN_X = - 10, MAX_Y = 10, MIN_Y = - 10\<rparr>"

definition cell_at :: "real \<Rightarrow> int \<Rightarrow> Cell" where
  "cell_at px s =
     \<lparr>location = \<lparr>p_x = px, p_y = 0\<rparr>, direction = \<lparr>p_x = 0, p_y = 0\<rparr>, sickness = s\<rparr>"

definition world_of :: "Cell list \<Rightarrow> world" where
  "world_of cs =
     \<lparr>heap = (\<lambda>a. if a < length cs then cs ! a else cell_at 0 0),
      fresh = length cs, drawn = 0, calls = []\<rparr>"

text \<open>
  The doubles nearest to \<open>0.1\<close> and to \<open>-1.4\<close>, and a double whose square is out of range.
\<close>

definition double_0_1 :: real where
  "double_0_1 = 3602879701896397 / 2 ^ 55"

definition double_neg_1_4 :: real where
  "double_neg_1_4 = - (6305039478318694 / 2 ^ 52)"

definition double_huge :: real where
  "double_huge = 2 ^ 600"

section \<open>Properties\<close>

lemmas cfg_simps = constants_of_def cell_at_def world_of_def

lemma cell_at_sickness: "sickness (cell_at p s) = s"
  by (simp add: cell_at_def)

subsection \<open>One tick of a cell\<close>

lemma tick_sickness:
  "sickness (Cell_tick k c) =
     (if INFECTED k \<le> sickness c then
        (if RECOVERY_PERIOD k \<le> sickness c + 1 then IMMUNE k else sickness c + 1)
      else sickness c)"
  by (simp add: Cell_tick_def Let_def is_infected_def immunize_def)

lemma ticks_counting:
  assumes "sickness c = INFECTED k"
  shows "m < nat (max 1 (RECOVERY_PERIOD k - INFECTED k)) \<Longrightarrow>
         sickness ((Cell_tick k ^^ m) c) = INFECTED k + int m"
proof (induction m)
  case 0
  show ?case using assms by simp
next
  case (Suc m)
  then have ih: "sickness ((Cell_tick k ^^ m) c) = INFECTED k + int m" by simp
  from Suc.prems have "INFECTED k + int m + 1 < RECOVERY_PERIOD k" by linarith
  then show ?case using ih by (simp add: tick_sickness)
qed

subsection \<open>Recovery\<close>

text \<open>
  C4, as the code has it. A cell whose sickness has just been set to \<^verbatim>\<open>INFECTED\<close> is immune
  after exactly \<open>max 1 (RECOVERY_PERIOD - INFECTED)\<close> calls of \<^verbatim>\<open>Cell.tick\<close>, and after
  no smaller number of calls, provided the counter does not pass through the value
  \<^verbatim>\<open>IMMUNE\<close> on its way up (\<^verbatim>\<open>IMMUNE\<close> lies below \<^verbatim>\<open>INFECTED\<close>, or at or above both
  \<^verbatim>\<open>INFECTED + 1\<close> and \<^verbatim>\<open>RECOVERY_PERIOD\<close>). The counter starts at \<^verbatim>\<open>INFECTED\<close>, not at
  0, so the number of ticks is \<^verbatim>\<open>RECOVERY_PERIOD\<close> only when \<^verbatim>\<open>INFECTED\<close> is 0.
\<close>

theorem recovery_after_ticks:
  assumes "sickness c = INFECTED k"
    and "IMMUNE k < INFECTED k \<or> max (INFECTED k + 1) (RECOVERY_PERIOD k) \<le> IMMUNE k"
  shows "is_immune k ((Cell_tick k ^^ nat (max 1 (RECOVERY_PERIOD k - INFECTED k))) c) \<and>
         (\<forall>m < nat (max 1 (RECOVERY_PERIOD k - INFECTED k)).
            \<not> is_immune k ((Cell_tick k ^^ m) c))"
proof
  define n where "n = nat (max 1 (RECOVERY_PERIOD k - INFECTED k))"
  have npos: "0 < n" unfolding n_def by simp
  obtain j where j: "n = Suc j" using npos by (cases n) auto
  have "j < nat (max 1 (RECOVERY_PERIOD k - INFECTED k))" using j n_def by simp
  then have sj: "sickness ((Cell_tick k ^^ j) c) = INFECTED k + int j"
    using ticks_counting [OF assms(1)] by blast
  have "RECOVERY_PERIOD k \<le> INFECTED k + int j + 1" using j n_def by linarith
  then have "sickness ((Cell_tick k ^^ Suc j) c) = IMMUNE k"
    using sj by (simp add: tick_sickness)
  then show "is_immune k ((Cell_tick k ^^ nat (max 1 (RECOVERY_PERIOD k - INFECTED k))) c)"
    using j n_def by (simp add: is_immune_def)
next
  show "\<forall>m < nat (max 1 (RECOVERY_PERIOD k - INFECTED k)).
          \<not> is_immune k ((Cell_tick k ^^ m) c)"
  proof (intro allI impI)
    fix m assume m: "m < nat (max 1 (RECOVERY_PERIOD k - INFECTED k))"
    then have sm: "sickness ((Cell_tick k ^^ m) c) = INFECTED k + int m"
      using ticks_counting [OF assms(1)] by blast
    have "INFECTED k + int m < max (INFECTED k + 1) (RECOVERY_PERIOD k)" using m by linarith
    then have "INFECTED k + int m \<noteq> IMMUNE k" using assms(2) by linarith
    then show "\<not> is_immune k ((Cell_tick k ^^ m) c)" using sm by (simp add: is_immune_def)
  qed
qed

text \<open>With markers 0, 1, -1 and a recovery period of 3: immune after 2 ticks, not after 1.\<close>

theorem recovery_after_ticks_witness:
  "sickness (contract_disease (constants_of 0 1 (- 1) 3) (cell_at 0 0))
     = INFECTED (constants_of 0 1 (- 1) 3) \<and>
   IMMUNE (constants_of 0 1 (- 1) 3) < INFECTED (constants_of 0 1 (- 1) 3) \<and>
   nat (max 1 (RECOVERY_PERIOD (constants_of 0 1 (- 1) 3) - INFECTED (constants_of 0 1 (- 1) 3))) = 2 \<and>
   is_immune (constants_of 0 1 (- 1) 3)
     ((Cell_tick (constants_of 0 1 (- 1) 3) ^^ 2)
        (contract_disease (constants_of 0 1 (- 1) 3) (cell_at 0 0))) \<and>
   \<not> is_immune (constants_of 0 1 (- 1) 3)
     ((Cell_tick (constants_of 0 1 (- 1) 3) ^^ 1)
        (contract_disease (constants_of 0 1 (- 1) 3) (cell_at 0 0)))"
proof -
  let ?K = "constants_of 0 1 (- 1) 3"
  let ?c = "contract_disease ?K (cell_at 0 0)"
  have h1: "sickness ?c = INFECTED ?K" by (simp add: contract_disease_def)
  have h2: "IMMUNE ?K < INFECTED ?K \<or> max (INFECTED ?K + 1) (RECOVERY_PERIOD ?K) \<le> IMMUNE ?K"
    by (simp add: constants_of_def)
  have n: "nat (max 1 (RECOVERY_PERIOD ?K - INFECTED ?K)) = 2" by (simp add: constants_of_def)
  note T = recovery_after_ticks[OF h1 h2, unfolded n]
  from T have a: "is_immune ?K ((Cell_tick ?K ^^ 2) ?c)" by blast
  have "(1::nat) < 2" by simp
  with T have b: "\<not> is_immune ?K ((Cell_tick ?K ^^ 1) ?c)" by blast
  show ?thesis using h1 h2 n a b by (simp add: constants_of_def)
qed

text \<open>
  With markers 0, 1, 10 and a recovery period of 3, a freshly infected cell counts 1, 2 and
  is immunized by the second tick, one tick before the third.
\<close>

theorem recovery_after_ticks_counterexample:
  "sickness (contract_disease (constants_of 0 1 10 3) (cell_at 0 0))
     = INFECTED (constants_of 0 1 10 3) \<and>
   RECOVERY_PERIOD (constants_of 0 1 10 3) = 3 \<and>
   is_immune (constants_of 0 1 10 3)
     ((Cell_tick (constants_of 0 1 10 3) ^^ 2)
        (contract_disease (constants_of 0 1 10 3) (cell_at 0 0)))"
  by (simp add: eval_nat_numeral is_immune_def tick_sickness contract_disease_def cfg_simps)

subsection \<open>Monotonicity of the counter\<close>

lemma ticks_below_IMMUNE:
  assumes "sickness c \<le> IMMUNE k" and "RECOVERY_PERIOD k \<le> IMMUNE k + 1"
  shows "sickness ((Cell_tick k ^^ n) c) \<le> IMMUNE k"
  using assms by (induction n) (auto simp: tick_sickness)

text \<open>
  C5, as the code has it. Over any sequence of calls of \<^verbatim>\<open>Cell.tick\<close> the sickness of a
  cell never decreases, provided it starts at or below \<^verbatim>\<open>IMMUNE\<close> and
  \<^verbatim>\<open>RECOVERY_PERIOD \<le> IMMUNE + 1\<close>: \<^verbatim>\<open>immunize\<close> assigns \<^verbatim>\<open>IMMUNE\<close> whatever the counter
  has reached.
\<close>

theorem sickness_never_decreases:
  assumes "sickness c \<le> IMMUNE k" and "RECOVERY_PERIOD k \<le> IMMUNE k + 1"
  shows "sickness ((Cell_tick k ^^ n) c) \<le> sickness ((Cell_tick k ^^ Suc n) c)"
  using ticks_below_IMMUNE [OF assms, of n] by (simp add: tick_sickness)

text \<open>With markers 0, 1, 10 and a recovery period of 3, the second tick takes a cell from 2 up to 10.\<close>

theorem sickness_never_decreases_witness:
  "sickness (cell_at 0 1) \<le> IMMUNE (constants_of 0 1 10 3) \<and>
   RECOVERY_PERIOD (constants_of 0 1 10 3) \<le> IMMUNE (constants_of 0 1 10 3) + 1 \<and>
   sickness ((Cell_tick (constants_of 0 1 10 3) ^^ 1) (cell_at 0 1))
     \<le> sickness ((Cell_tick (constants_of 0 1 10 3) ^^ Suc 1) (cell_at 0 1))"
proof -
  let ?K = "constants_of 0 1 10 3"
  have h1: "sickness (cell_at 0 1) \<le> IMMUNE ?K" by (simp add: cfg_simps)
  have h2: "RECOVERY_PERIOD ?K \<le> IMMUNE ?K + 1" by (simp add: cfg_simps)
  show ?thesis using h1 h2 sickness_never_decreases[OF h1 h2, of 1] by blast
qed

text \<open>
  With markers 0, 1, 2 and a recovery period of 4, a freshly infected cell counts 1, 2, 3
  and the third tick takes it from 3 down to 2.
\<close>

theorem sickness_never_decreases_counterexample:
  "sickness (contract_disease (constants_of 0 1 2 4) (cell_at 0 0))
     = INFECTED (constants_of 0 1 2 4) \<and>
   sickness ((Cell_tick (constants_of 0 1 2 4) ^^ 2)
      (contract_disease (constants_of 0 1 2 4) (cell_at 0 0))) = 3 \<and>
   sickness (Cell_tick (constants_of 0 1 2 4) ((Cell_tick (constants_of 0 1 2 4) ^^ 2)
      (contract_disease (constants_of 0 1 2 4) (cell_at 0 0)))) = 2"
  by (simp add: eval_nat_numeral tick_sickness contract_disease_def cfg_simps)

subsection \<open>Contact between two cells\<close>

lemma contact_with_heap:
  "heap (contact_with k a b w) =
     (if is_infected k (heap w a) \<and> is_vulnerable k (heap w b)
      then (heap w)(b := (heap w b)\<lparr>sickness := INFECTED k\<rparr>)
      else if is_vulnerable k (heap w a) \<and> is_infected k (heap w b)
      then (heap w)(a := (heap w a)\<lparr>sickness := INFECTED k\<rparr>)
      else heap w)"
  by (simp add: contact_with_def Let_def contract_disease_def)

text \<open>
  C6, as the code has it. \<^verbatim>\<open>contact_with\<close> transmits in at most one direction: if self
  \<^verbatim>\<open>is_infected\<close> and other \<^verbatim>\<open>is_vulnerable\<close>, other's sickness becomes \<^verbatim>\<open>INFECTED\<close>;
  else if self \<^verbatim>\<open>is_vulnerable\<close> and other \<^verbatim>\<open>is_infected\<close>, self's sickness becomes
  \<^verbatim>\<open>INFECTED\<close>; otherwise no cell changes. Both infected, both vulnerable, or either one
  immune are such other cases when \<^verbatim>\<open>VULNERABLE < INFECTED\<close>, \<^verbatim>\<open>IMMUNE < INFECTED\<close> and
  \<^verbatim>\<open>IMMUNE \<noteq> VULNERABLE\<close>; an immune cell with \<^verbatim>\<open>IMMUNE \<ge> INFECTED\<close> passes
  \<^verbatim>\<open>is_infected\<close> and does transmit.
\<close>

theorem contact_with_transmission:
  "(is_infected k (heap w a) \<and> is_vulnerable k (heap w b) \<longrightarrow>
      heap (contact_with k a b w) = (heap w)(b := (heap w b)\<lparr>sickness := INFECTED k\<rparr>)) \<and>
   (\<not> (is_infected k (heap w a) \<and> is_vulnerable k (heap w b)) \<and>
    is_vulnerable k (heap w a) \<and> is_infected k (heap w b) \<longrightarrow>
      heap (contact_with k a b w) = (heap w)(a := (heap w a)\<lparr>sickness := INFECTED k\<rparr>)) \<and>
   (\<not> (is_infected k (heap w a) \<and> is_vulnerable k (heap w b)) \<and>
    \<not> (is_vulnerable k (heap w a) \<and> is_infected k (heap w b)) \<longrightarrow>
      heap (contact_with k a b w) = heap w) \<and>
   (VULNERABLE k < INFECTED k \<and> IMMUNE k < INFECTED k \<and> IMMUNE k \<noteq> VULNERABLE k \<and>
    (is_infected k (heap w a) \<and> is_infected k (heap w b) \<or>
     is_vulnerable k (heap w a) \<and> is_vulnerable k (heap w b) \<or>
     is_immune k (heap w a) \<or> is_immune k (heap w b)) \<longrightarrow>
      heap (contact_with k a b w) = heap w)"
  by (auto simp: contact_with_heap is_infected_def is_vulnerable_def is_immune_def)

text \<open>
  With markers 0, 1, -1: an infected and a vulnerable cell in contact, either way round,
  leave the vulnerable one infected; a cell in contact with itself and an immune cell in
  contact with a vulnerable one change nothing.
\<close>

theorem contact_with_transmission_witness:
  "is_infected (constants_of 0 1 (- 1) 3)
     (heap (world_of [cell_at 0 1, cell_at 1 0, cell_at 2 (- 1)]) 0) \<and>
   is_vulnerable (constants_of 0 1 (- 1) 3)
     (heap (world_of [cell_at 0 1, cell_at 1 0, cell_at 2 (- 1)]) 1) \<and>
   is_immune (constants_of 0 1 (- 1) 3)
     (heap (world_of [cell_at 0 1, cell_at 1 0, cell_at 2 (- 1)]) 2) \<and>
   sickness (heap (contact_with (constants_of 0 1 (- 1) 3) 0 1
      (world_of [cell_at 0 1, cell_at 1 0, cell_at 2 (- 1)])) 1) = 1 \<and>
   sickness (heap (contact_with (constants_of 0 1 (- 1) 3) 1 0
      (world_of [cell_at 0 1, cell_at 1 0, cell_at 2 (- 1)])) 1) = 1 \<and>
   heap (contact_with (constants_of 0 1 (- 1) 3) 0 0
      (world_of [cell_at 0 1, cell_at 1 0, cell_at 2 (- 1)]))
     = heap (world_of [cell_at 0 1, cell_at 1 0, cell_at 2 (- 1)]) \<and>
   heap (contact_with (constants_of 0 1 (- 1) 3) 2 1
      (world_of [cell_at 0 1, cell_at 1 0, cell_at 2 (- 1)]))
     = heap (world_of [cell_at 0 1, cell_at 1 0, cell_at 2 (- 1)])"
proof -
  let ?K = "constants_of 0 1 (- 1) 3"
  let ?W = "world_of [cell_at 0 1, cell_at 1 0, cell_at 2 (- 1)]"
  have i0: "is_infected ?K (heap ?W 0)" by (simp add: is_infected_def cfg_simps)
  have v1: "is_vulnerable ?K (heap ?W 1)" by (simp add: is_vulnerable_def cfg_simps)
  have m2: "is_immune ?K (heap ?W 2)" by (simp add: is_immune_def cfg_simps)
  have n0: "\<not> is_vulnerable ?K (heap ?W 0)" by (simp add: is_vulnerable_def cfg_simps)
  have n1: "\<not> is_infected ?K (heap ?W 1)" by (simp add: is_infected_def cfg_simps)
  have cfg: "VULNERABLE ?K < INFECTED ?K \<and> IMMUNE ?K < INFECTED ?K \<and>
      IMMUNE ?K \<noteq> VULNERABLE ?K" by (simp add: cfg_simps)
  have I: "INFECTED ?K = 1" by (simp add: cfg_simps)
  from contact_with_transmission[of ?K ?W 0 1] i0 v1
  have a: "heap (contact_with ?K 0 1 ?W) = (heap ?W)(1 := (heap ?W 1)\<lparr>sickness := INFECTED ?K\<rparr>)"
    by blast
  from contact_with_transmission[of ?K ?W 1 0] i0 v1 n0 n1
  have b: "heap (contact_with ?K 1 0 ?W) = (heap ?W)(1 := (heap ?W 1)\<lparr>sickness := INFECTED ?K\<rparr>)"
    by blast
  from contact_with_transmission[of ?K ?W 0 0] n0
  have c: "heap (contact_with ?K 0 0 ?W) = heap ?W" by blast
  from contact_with_transmission[of ?K ?W 2 1] cfg m2
  have d: "heap (contact_with ?K 2 1 ?W) = heap ?W" by blast
  have a': "sickness (heap (contact_with ?K 0 1 ?W) 1) = 1" by (subst a) (simp add: I)
  have b': "sickness (heap (contact_with ?K 1 0 ?W) 1) = 1" by (subst b) (simp add: I)
  show ?thesis using i0 v1 m2 a' b' c d by blast
qed

text \<open>
  With markers 0, 1, 2 an immune cell (sickness 2) in contact with a vulnerable one
  infects it.
\<close>

theorem contact_with_transmission_counterexample:
  "IMMUNE (constants_of 0 1 2 4) = 2 \<and> INFECTED (constants_of 0 1 2 4) = 1 \<and>
   is_immune (constants_of 0 1 2 4) (heap (world_of [cell_at 0 2, cell_at 1 0]) 0) \<and>
   is_vulnerable (constants_of 0 1 2 4) (heap (world_of [cell_at 0 2, cell_at 1 0]) 1) \<and>
   sickness (heap (world_of [cell_at 0 2, cell_at 1 0]) 1) = 0 \<and>
   sickness (heap (contact_with (constants_of 0 1 2 4) 0 1
      (world_of [cell_at 0 2, cell_at 1 0])) 1) = 1"
  by (simp add: contact_with_heap is_infected_def is_vulnerable_def is_immune_def cfg_simps)

subsection \<open>Completion\<close>

lemma complete_from_iff:
  "complete_from k h pop \<longleftrightarrow> (\<forall>a \<in> set pop. \<not> is_infected k (h a))"
  by (induction pop) auto

text \<open>
  C1, as the code has it. \<^verbatim>\<open>is_complete\<close> returns true exactly when no cell of the
  population has sickness \<^verbatim>\<open>\<ge> INFECTED\<close>. So it returns false whenever some cell's
  sickness lies in \<^verbatim>\<open>[INFECTED, IMMUNE)\<close>, and a population of vulnerable and immune cells
  only reports complete when \<^verbatim>\<open>VULNERABLE < INFECTED\<close> and \<^verbatim>\<open>IMMUNE < INFECTED\<close>.
\<close>

theorem is_complete_iff:
  "(is_complete k (m, w) \<longleftrightarrow> (\<forall>a \<in> set (population m). sickness (heap w a) < INFECTED k)) \<and>
   ((\<exists>a \<in> set (population m).
        INFECTED k \<le> sickness (heap w a) \<and> sickness (heap w a) < IMMUNE k)
      \<longrightarrow> \<not> is_complete k (m, w)) \<and>
   (VULNERABLE k < INFECTED k \<and> IMMUNE k < INFECTED k \<and>
    (\<forall>a \<in> set (population m). is_vulnerable k (heap w a) \<or> is_immune k (heap w a))
      \<longrightarrow> is_complete k (m, w))"
proof -
  have iff: "is_complete k (m, w) \<longleftrightarrow>
      (\<forall>a \<in> set (population m). sickness (heap w a) < INFECTED k)"
    by (simp add: is_complete_def complete_from_iff is_infected_def not_le)
  have win: "(\<exists>a \<in> set (population m).
        INFECTED k \<le> sickness (heap w a) \<and> sickness (heap w a) < IMMUNE k)
      \<longrightarrow> \<not> is_complete k (m, w)"
    unfolding iff by (meson not_le)
  have part: "VULNERABLE k < INFECTED k \<and> IMMUNE k < INFECTED k \<and>
    (\<forall>a \<in> set (population m). is_vulnerable k (heap w a) \<or> is_immune k (heap w a))
      \<longrightarrow> is_complete k (m, w)"
    unfolding iff by (auto simp: is_vulnerable_def is_immune_def split: if_splits)
  show ?thesis using iff win part by blast
qed

text \<open>
  With markers 0, 1, -1 a vulnerable and an immune cell are complete; with markers 0, 1, 10 a
  vulnerable cell and one of sickness 2 are not.
\<close>

theorem is_complete_iff_witness:
  "is_complete (constants_of 0 1 (- 1) 3)
     (\<lparr>population = [0, 1], time = 0\<rparr>, world_of [cell_at 0 0, cell_at 1 (- 1)]) \<and>
   \<not> is_complete (constants_of 0 1 10 3)
     (\<lparr>population = [0, 1], time = 0\<rparr>, world_of [cell_at 0 0, cell_at 1 2])"
proof -
  let ?K = "constants_of 0 1 (- 1) 3"
  let ?W = "world_of [cell_at 0 0, cell_at 1 (- 1)]"
  let ?K2 = "constants_of 0 1 10 3"
  let ?W2 = "world_of [cell_at 0 0, cell_at 1 2]"
  let ?m = "\<lparr>population = [0, 1], time = 0\<rparr>"
  have h: "VULNERABLE ?K < INFECTED ?K \<and> IMMUNE ?K < INFECTED ?K \<and>
      (\<forall>a \<in> set (population ?m). is_vulnerable ?K (heap ?W a) \<or> is_immune ?K (heap ?W a))"
    by (simp add: is_vulnerable_def is_immune_def cfg_simps)
  have h2: "\<exists>a \<in> set (population ?m).
      INFECTED ?K2 \<le> sickness (heap ?W2 a) \<and> sickness (heap ?W2 a) < IMMUNE ?K2"
    by (simp add: cfg_simps)
  from is_complete_iff[of ?K ?m ?W] h have a: "is_complete ?K (?m, ?W)" by blast
  from is_complete_iff[of ?K2 ?m ?W2] h2 have b: "\<not> is_complete ?K2 (?m, ?W2)" by blast
  show ?thesis using a b by blast
qed

text \<open>
  With markers 0, 1, 2 a population of one immune cell has no sickness in \<open>[1, 2)\<close> and
  is not complete.
\<close>

theorem is_complete_counterexample:
  "is_immune (constants_of 0 1 2 4) (heap (world_of [cell_at 0 2]) 0) \<and>
   \<not> (INFECTED (constants_of 0 1 2 4) \<le> sickness (heap (world_of [cell_at 0 2]) 0) \<and>
      sickness (heap (world_of [cell_at 0 2]) 0) < IMMUNE (constants_of 0 1 2 4)) \<and>
   \<not> is_complete (constants_of 0 1 2 4) (\<lparr>population = [0], time = 0\<rparr>, world_of [cell_at 0 2])"
  by (simp add: is_complete_def is_infected_def is_immune_def cfg_simps)

subsection \<open>Construction of the population\<close>

lemma random_location_fst:
  "fst (random_location k rnd w) =
     \<lparr>p_x = rnd (drawn w) * BOUNDS_WIDTH k - MAX_X k,
      p_y = rnd (drawn w + 1) * BOUNDS_HEIGHT k - MAX_Y k\<rparr>"
  by (simp add: random_location_def random_def Let_def)

lemma spawn_fst: "fst (spawn k rnd speed mark (pop, w)) = pop @ [fresh w]"
  by (simp add: spawn_def random_location_def random_direction_def random_def new_Cell_def
      Let_def split: option.splits)

lemma spawn_fresh: "fresh (snd (spawn k rnd speed mark (pop, w))) = fresh w + 1"
  by (simp add: spawn_def random_location_def random_direction_def random_def new_Cell_def
      Let_def split: option.splits)

lemma spawn_drawn: "drawn (snd (spawn k rnd speed mark (pop, w))) = drawn w + 3"
  by (simp add: spawn_def random_location_def random_direction_def random_def new_Cell_def
      Let_def split: option.splits)

lemma spawn_calls: "calls (snd (spawn k rnd speed mark (pop, w))) = calls w"
  by (simp add: spawn_def random_location_def random_direction_def random_def new_Cell_def
      Let_def split: option.splits)

lemma spawn_heap_old:
  "a \<noteq> fresh w \<Longrightarrow> heap (snd (spawn k rnd speed mark (pop, w))) a = heap w a"
  by (simp add: spawn_def random_location_def random_direction_def random_def new_Cell_def
      Let_def split: option.splits)

lemma spawn_heap_new:
  "sickness (heap (snd (spawn k rnd speed mark (pop, w))) (fresh w)) =
     (case mark of None \<Rightarrow> VULNERABLE k | Some v \<Rightarrow> v)"
  by (simp add: spawn_def random_location_def random_direction_def random_def new_Cell_def
      Cell_init_def Let_def split: option.splits)

lemma populate_props:
  "fst (populate k rnd speed mark n (pop, w)) = pop @ [fresh w ..< fresh w + n] \<and>
   fresh (snd (populate k rnd speed mark n (pop, w))) = fresh w + n \<and>
   drawn (snd (populate k rnd speed mark n (pop, w))) = drawn w + 3 * n \<and>
   calls (snd (populate k rnd speed mark n (pop, w))) = calls w \<and>
   (\<forall>a. a < fresh w \<longrightarrow> heap (snd (populate k rnd speed mark n (pop, w))) a = heap w a) \<and>
   (\<forall>a. fresh w \<le> a \<and> a < fresh w + n \<longrightarrow>
        sickness (heap (snd (populate k rnd speed mark n (pop, w))) a) =
          (case mark of None \<Rightarrow> VULNERABLE k | Some v \<Rightarrow> v))"
proof (induction n arbitrary: pop w)
  case 0
  show ?case by simp
next
  case (Suc n)
  let ?pw = "spawn k rnd speed mark (pop, w)"
  let ?w1 = "snd ?pw"
  let ?res = "populate k rnd speed mark n (fst ?pw, ?w1)"
  have step: "populate k rnd speed mark (Suc n) (pop, w) = ?res" by simp
  note ih = Suc.IH [of "fst ?pw" ?w1]
  have f1: "fresh ?w1 = fresh w + 1" by (rule spawn_fresh)
  have l: "fst ?res = pop @ [fresh w ..< fresh w + Suc n]"
    using ih by (simp add: spawn_fst f1 upt_conv_Cons)
  have fr: "fresh (snd ?res) = fresh w + Suc n" using ih by (simp add: f1)
  have dr: "drawn (snd ?res) = drawn w + 3 * Suc n" using ih by (simp add: spawn_drawn)
  have ca: "calls (snd ?res) = calls w" using ih by (simp add: spawn_calls)
  have old: "\<forall>a. a < fresh w \<longrightarrow> heap (snd ?res) a = heap w a"
  proof (intro allI impI)
    fix a assume a: "a < fresh w"
    then have "heap (snd ?res) a = heap ?w1 a" using ih f1 by simp
    also have "\<dots> = heap w a" using a by (simp add: spawn_heap_old)
    finally show "heap (snd ?res) a = heap w a" .
  qed
  have new: "\<forall>a. fresh w \<le> a \<and> a < fresh w + Suc n \<longrightarrow>
      sickness (heap (snd ?res) a) = (case mark of None \<Rightarrow> VULNERABLE k | Some v \<Rightarrow> v)"
  proof (intro allI impI)
    fix a assume a: "fresh w \<le> a \<and> a < fresh w + Suc n"
    show "sickness (heap (snd ?res) a) = (case mark of None \<Rightarrow> VULNERABLE k | Some v \<Rightarrow> v)"
    proof (cases "a = fresh w")
      case True
      then have "heap (snd ?res) a = heap ?w1 (fresh w)" using ih f1 by simp
      then show ?thesis by (simp add: spawn_heap_new)
    next
      case False
      then have "fresh ?w1 \<le> a \<and> a < fresh ?w1 + n" using a f1 by simp
      then show ?thesis using ih by blast
    qed
  qed
  show ?case unfolding step using l fr dr ca old new by blast
qed

lemma Model_init_valid:
  assumes "0 < si" and "si < cells" and "0 \<le> sim" and "sim < cells" and "si + sim < cells"
  shows "\<exists>m w'. Model_init k rnd cells speed si sim w = (Inr m, w') \<and>
     population m =
       [fresh w ..< fresh w + nat (cells - si - sim)] @
       [fresh w + nat (cells - si - sim) ..< fresh w + nat (cells - si - sim) + nat si] @
       [fresh w + nat (cells - si - sim) + nat si ..<
          fresh w + nat (cells - si - sim) + nat si + nat sim] \<and>
     time m = 0 \<and>
     fresh w' = fresh w + nat cells \<and>
     calls w' = calls w \<and>
     (\<forall>a. a < fresh w \<longrightarrow> heap w' a = heap w a) \<and>
     (\<forall>a \<in> set [fresh w ..< fresh w + nat (cells - si - sim)].
          sickness (heap w' a) = VULNERABLE k) \<and>
     (\<forall>a \<in> set [fresh w + nat (cells - si - sim) ..<
                  fresh w + nat (cells - si - sim) + nat si].
          sickness (heap w' a) = INFECTED k) \<and>
     (\<forall>a \<in> set [fresh w + nat (cells - si - sim) + nat si ..<
                  fresh w + nat (cells - si - sim) + nat si + nat sim].
          sickness (heap w' a) = IMMUNE k)"
proof -
  define nv where "nv = nat (cells - si - sim)"
  define ni where "ni = nat si"
  define nm where "nm = nat sim"
  define pw1 where "pw1 = populate k rnd speed None nv ([], w)"
  define pw2 where "pw2 = populate k rnd speed (Some (INFECTED k)) ni pw1"
  define pw3 where "pw3 = populate k rnd speed (Some (IMMUNE k)) nm pw2"
  have tot: "nv + ni + nm = nat cells" using assms by (simp add: nv_def ni_def nm_def)
  have run: "Model_init k rnd cells speed si sim w =
      (Inr \<lparr>population = fst pw3, time = 0\<rparr>, snd pw3)"
    using assms
    by (simp add: Model_init_def Let_def pw1_def pw2_def pw3_def nv_def ni_def nm_def)
  note p1 = populate_props [of k rnd speed None nv "[]" w, folded pw1_def]
  note p2 = populate_props [of k rnd speed "Some (INFECTED k)" ni "fst pw1" "snd pw1",
      unfolded prod.collapse, folded pw2_def]
  note p3 = populate_props [of k rnd speed "Some (IMMUNE k)" nm "fst pw2" "snd pw2",
      unfolded prod.collapse, folded pw3_def]
  have f1: "fresh (snd pw1) = fresh w + nv" using p1 by simp
  have f2: "fresh (snd pw2) = fresh w + nv + ni" using p2 f1 by simp
  have f3: "fresh (snd pw3) = fresh w + nv + ni + nm" using p3 f2 by simp
  have pop: "fst pw3 = [fresh w ..< fresh w + nv] @ [fresh w + nv ..< fresh w + nv + ni] @
      [fresh w + nv + ni ..< fresh w + nv + ni + nm]"
    using p1 p2 p3 f1 f2 by simp
  have ca: "calls (snd pw3) = calls w" using p1 p2 p3 by simp
  have old: "\<forall>a. a < fresh w \<longrightarrow> heap (snd pw3) a = heap w a"
  proof (intro allI impI)
    fix a assume a: "a < fresh w"
    have "heap (snd pw3) a = heap (snd pw2) a" using p3 f2 a by simp
    also have "\<dots> = heap (snd pw1) a" using p2 f1 a by simp
    also have "\<dots> = heap w a" using p1 a by simp
    finally show "heap (snd pw3) a = heap w a" .
  qed
  have v: "\<forall>a \<in> set [fresh w ..< fresh w + nv]. sickness (heap (snd pw3) a) = VULNERABLE k"
  proof
    fix a assume "a \<in> set [fresh w ..< fresh w + nv]"
    then have a: "fresh w \<le> a \<and> a < fresh w + nv" by simp
    have "heap (snd pw3) a = heap (snd pw2) a" using p3 f2 a by simp
    also have "\<dots> = heap (snd pw1) a" using p2 f1 a by simp
    finally show "sickness (heap (snd pw3) a) = VULNERABLE k" using p1 a by simp
  qed
  have i: "\<forall>a \<in> set [fresh w + nv ..< fresh w + nv + ni].
      sickness (heap (snd pw3) a) = INFECTED k"
  proof
    fix a assume "a \<in> set [fresh w + nv ..< fresh w + nv + ni]"
    then have a: "fresh (snd pw1) \<le> a \<and> a < fresh (snd pw1) + ni" using f1 by simp
    have "heap (snd pw3) a = heap (snd pw2) a" using p3 f2 f1 a by simp
    then show "sickness (heap (snd pw3) a) = INFECTED k" using p2 a by simp
  qed
  have m: "\<forall>a \<in> set [fresh w + nv + ni ..< fresh w + nv + ni + nm].
      sickness (heap (snd pw3) a) = IMMUNE k"
  proof
    fix a assume "a \<in> set [fresh w + nv + ni ..< fresh w + nv + ni + nm]"
    then have a: "fresh (snd pw2) \<le> a \<and> a < fresh (snd pw2) + nm" using f2 by simp
    then show "sickness (heap (snd pw3) a) = IMMUNE k" using p3 by simp
  qed
  show ?thesis
    unfolding run
    using pop f3 ca old v i m tot
    by (simp add: nv_def [symmetric] ni_def [symmetric] nm_def [symmetric])
qed

lemma Model_init_distinct:
  assumes "0 < si" and "si < cells" and "0 \<le> sim" and "sim < cells" and "si + sim < cells"
    and "Model_init k rnd cells speed si sim w = (Inr m, w')"
  shows "distinct (population m)"
  using Model_init_valid [OF assms(1-5), of k rnd speed w] assms(6) by auto

text \<open>
  C2. \<^verbatim>\<open>Model(cells, speed, start_infected, start_immune)\<close> raises if and only if the
  arguments violate \<open>0 < start_infected < cells\<close>, \<open>0 \<le> start_immune < cells\<close> or
  \<open>start_infected + start_immune < cells\<close>. When it raises it has built no cell and
  drawn no random number: the store is the one it was given. For arguments that satisfy
  the three conditions it returns a model.
\<close>

theorem Model_init_validation:
  "((\<exists>e. fst (Model_init k rnd cells speed si sim w) = Inl e) \<longleftrightarrow>
      \<not> (0 < si \<and> si < cells \<and> 0 \<le> sim \<and> sim < cells \<and> si + sim < cells)) \<and>
   (\<forall>e. fst (Model_init k rnd cells speed si sim w) = Inl e \<longrightarrow>
      snd (Model_init k rnd cells speed si sim w) = w) \<and>
   (0 < si \<and> si < cells \<and> 0 \<le> sim \<and> sim < cells \<and> si + sim < cells \<longrightarrow>
      (\<exists>m. fst (Model_init k rnd cells speed si sim w) = Inr m))"
proof (cases "0 < si \<and> si < cells \<and> 0 \<le> sim \<and> sim < cells \<and> si + sim < cells")
  case True
  then obtain m w' where "Model_init k rnd cells speed si sim w = (Inr m, w')"
    using Model_init_valid [of si cells sim k rnd speed w] by blast
  then show ?thesis using True by simp
next
  case False
  then have "\<exists>e. Model_init k rnd cells speed si sim w = (Inl e, w)"
    by (auto simp: Model_init_def)
  then show ?thesis using False by auto
qed

text \<open>Two cells with two infected are refused; three cells with one infected and one immune are built.\<close>

theorem Model_init_validation_witness:
  "(\<exists>e. fst (Model_init (constants_of 0 1 (- 1) 3) (\<lambda>n. 0) 2 1 2 0 (world_of [])) = Inl e) \<and>
   snd (Model_init (constants_of 0 1 (- 1) 3) (\<lambda>n. 0) 2 1 2 0 (world_of [])) = world_of [] \<and>
   (\<exists>m. fst (Model_init (constants_of 0 1 (- 1) 3) (\<lambda>n. 0) 3 1 1 1 (world_of [])) = Inr m)"
proof -
  let ?K = "constants_of 0 1 (- 1) 3"
  let ?bad = "Model_init ?K (\<lambda>n. 0) 2 1 2 0 (world_of [])"
  let ?good = "Model_init ?K (\<lambda>n. 0) 3 1 1 1 (world_of [])"
  note B = Model_init_validation [of ?K "\<lambda>n. 0" 2 1 2 0 "world_of []"]
  note G = Model_init_validation [of ?K "\<lambda>n. 0" 3 1 1 1 "world_of []"]
  have nb: "\<not> (0 < (2::int) \<and> (2::int) < 2 \<and> 0 \<le> (0::int) \<and> (0::int) < 2 \<and> (2::int) + 0 < 2)"
    by simp
  have g: "0 < (1::int) \<and> (1::int) < 3 \<and> 0 \<le> (1::int) \<and> (1::int) < 3 \<and> (1::int) + 1 < 3"
    by simp
  from B nb have a: "\<exists>e. fst ?bad = Inl e" by blast
  with B have b: "snd ?bad = world_of []" by blast
  from G g have c: "\<exists>m. fst ?good = Inr m" by blast
  show ?thesis using a b c by blast
qed

lemma filter_const:
  "\<forall>a \<in> set xs. P a = c \<Longrightarrow> length (filter P xs) = (if c then length xs else 0)"
  by (induction xs) auto

text \<open>
  C3, as the code has it. A valid construction yields a population of exactly \<open>cells\<close>
  members: \<open>cells - start_infected - start_immune\<close> of sickness \<^verbatim>\<open>VULNERABLE\<close>, then
  \<open>start_infected\<close> of sickness \<^verbatim>\<open>INFECTED\<close>, then \<open>start_immune\<close> of sickness \<^verbatim>\<open>IMMUNE\<close>.
  So the number of members that satisfy \<^verbatim>\<open>is_infected\<close> is \<open>start_infected\<close>, plus
  \<open>start_immune\<close> when \<^verbatim>\<open>INFECTED \<le> IMMUNE\<close>, plus the vulnerable ones when
  \<^verbatim>\<open>INFECTED \<le> VULNERABLE\<close>; the number that satisfy \<^verbatim>\<open>is_immune\<close> is \<open>start_immune\<close>, and
  the number that satisfy \<^verbatim>\<open>is_vulnerable\<close> is \<open>cells - start_infected - start_immune\<close>,
  each plus the cells of another kind whose marker has the same value.
\<close>

theorem Model_init_population:
  assumes "0 < si" and "si < cells" and "0 \<le> sim" and "sim < cells" and "si + sim < cells"
  shows "\<exists>m w'. Model_init k rnd cells speed si sim w = (Inr m, w') \<and>
     int (length (population m)) = cells \<and>
     int (length (filter (\<lambda>a. is_infected k (heap w' a)) (population m)))
       = si + (if INFECTED k \<le> IMMUNE k then sim else 0)
            + (if INFECTED k \<le> VULNERABLE k then cells - si - sim else 0) \<and>
     int (length (filter (\<lambda>a. is_immune k (heap w' a)) (population m)))
       = sim + (if INFECTED k = IMMUNE k then si else 0)
             + (if VULNERABLE k = IMMUNE k then cells - si - sim else 0) \<and>
     int (length (filter (\<lambda>a. is_vulnerable k (heap w' a)) (population m)))
       = cells - si - sim + (if INFECTED k = VULNERABLE k then si else 0)
                          + (if IMMUNE k = VULNERABLE k then sim else 0)"
proof -
  from Model_init_valid [OF assms, of k rnd speed w]
  obtain m w' xs ys zs where
    run: "Model_init k rnd cells speed si sim w = (Inr m, w')" and
    pop: "population m = xs @ ys @ zs" and
    lx: "length xs = nat (cells - si - sim)" and
    ly: "length ys = nat si" and
    lz: "length zs = nat sim" and
    v: "\<forall>a \<in> set xs. sickness (heap w' a) = VULNERABLE k" and
    i: "\<forall>a \<in> set ys. sickness (heap w' a) = INFECTED k" and
    im: "\<forall>a \<in> set zs. sickness (heap w' a) = IMMUNE k"
    by (auto simp del: upt_Suc)
  have len: "int (length (population m)) = cells" using pop lx ly lz assms by simp
  have inf: "length (filter (\<lambda>a. is_infected k (heap w' a)) (population m))
      = (if INFECTED k \<le> VULNERABLE k then length xs else 0) + length ys
        + (if INFECTED k \<le> IMMUNE k then length zs else 0)"
    using filter_const [of xs "\<lambda>a. is_infected k (heap w' a)" "INFECTED k \<le> VULNERABLE k"]
      filter_const [of ys "\<lambda>a. is_infected k (heap w' a)" True]
      filter_const [of zs "\<lambda>a. is_infected k (heap w' a)" "INFECTED k \<le> IMMUNE k"]
      v i im
    by (simp add: pop is_infected_def)
  have imm: "length (filter (\<lambda>a. is_immune k (heap w' a)) (population m))
      = (if VULNERABLE k = IMMUNE k then length xs else 0)
        + (if INFECTED k = IMMUNE k then length ys else 0) + length zs"
    using filter_const [of xs "\<lambda>a. is_immune k (heap w' a)" "VULNERABLE k = IMMUNE k"]
      filter_const [of ys "\<lambda>a. is_immune k (heap w' a)" "INFECTED k = IMMUNE k"]
      filter_const [of zs "\<lambda>a. is_immune k (heap w' a)" True]
      v i im
    by (simp add: pop is_immune_def)
  have vul: "length (filter (\<lambda>a. is_vulnerable k (heap w' a)) (population m))
      = length xs + (if INFECTED k = VULNERABLE k then length ys else 0)
        + (if IMMUNE k = VULNERABLE k then length zs else 0)"
    using filter_const [of xs "\<lambda>a. is_vulnerable k (heap w' a)" True]
      filter_const [of ys "\<lambda>a. is_vulnerable k (heap w' a)" "INFECTED k = VULNERABLE k"]
      filter_const [of zs "\<lambda>a. is_vulnerable k (heap w' a)" "IMMUNE k = VULNERABLE k"]
      v i im
    by (simp add: pop is_vulnerable_def)
  show ?thesis using run len inf imm vul lx ly lz assms by simp
qed

text \<open>With markers 0, 1, -1, three cells with one infected and one immune: one of each kind.\<close>

theorem Model_init_population_witness:
  "\<exists>m w'. Model_init (constants_of 0 1 (- 1) 3) (\<lambda>n. 0) 3 1 1 1 (world_of []) = (Inr m, w') \<and>
     int (length (population m)) = 3 \<and>
     int (length (filter (\<lambda>a. is_infected (constants_of 0 1 (- 1) 3) (heap w' a))
        (population m))) = 1 \<and>
     int (length (filter (\<lambda>a. is_immune (constants_of 0 1 (- 1) 3) (heap w' a))
        (population m))) = 1 \<and>
     int (length (filter (\<lambda>a. is_vulnerable (constants_of 0 1 (- 1) 3) (heap w' a))
        (population m))) = 1"
proof -
  let ?K = "constants_of 0 1 (- 1) 3"
  have v: "(0::int) < 1" "(1::int) < 3" "(0::int) \<le> 1" "(1::int) < 3" "(1::int) + 1 < 3"
    by simp_all
  from Model_init_population [OF v, of ?K "\<lambda>n. 0" 1 "world_of []"]
  show ?thesis by (simp add: constants_of_def)
qed

text \<open>
  With markers 0, 1, 2, the model of three cells with one infected and one immune has
  sickness values 0, 1, 2, and two of its cells satisfy \<^verbatim>\<open>is_infected\<close>.
\<close>

theorem Model_init_population_counterexample:
  "INFECTED (constants_of 0 1 2 4) < IMMUNE (constants_of 0 1 2 4) \<and>
   fst (Model_init (constants_of 0 1 2 4) (\<lambda>n. 0) 3 1 1 1 (world_of []))
     = Inr \<lparr>population = [0, 1, 2], time = 0\<rparr> \<and>
   map (\<lambda>a. sickness (heap (snd (Model_init (constants_of 0 1 2 4) (\<lambda>n. 0) 3 1 1 1
          (world_of []))) a)) [0, 1, 2] = [0, 1, 2] \<and>
   length (filter (\<lambda>a. is_infected (constants_of 0 1 2 4)
        (heap (snd (Model_init (constants_of 0 1 2 4) (\<lambda>n. 0) 3 1 1 1 (world_of []))) a))
      [0, 1, 2]) = 2"
proof -
  let ?K = "constants_of 0 1 2 4"
  let ?R = "Model_init ?K (\<lambda>n. 0) 3 1 1 1 (world_of [])"
  from Model_init_valid [of 1 3 1 ?K "\<lambda>n. 0" 1 "world_of []"]
  obtain m w' where run: "?R = (Inr m, w')"
    and pop: "population m = [0, 1, 2]" and t: "time m = 0"
    and s0: "sickness (heap w' 0) = 0" and s1: "sickness (heap w' 1) = 1"
    and s2: "sickness (heap w' 2) = 2"
    by (auto simp: cfg_simps eval_nat_numeral)
  have m: "m = \<lparr>population = [0, 1, 2], time = 0\<rparr>" using pop t by simp
  have a: "fst ?R = Inr \<lparr>population = [0, 1, 2], time = 0\<rparr>" using run m by simp
  have b: "snd ?R = w'" using run by simp
  have c: "INFECTED ?K = 1" "IMMUNE ?K = 2" by (simp_all add: cfg_simps)
  show ?thesis unfolding a b using s0 s1 s2 c by (simp add: is_infected_def)
qed

subsection \<open>Random locations\<close>

lemma scaled_draw_bounds:
  fixes r M :: real
  assumes "0 \<le> r" and "r < 1" and "0 \<le> M"
  shows "- M \<le> r * (M - (- M)) - M \<and> r * (M - (- M)) - M \<le> M"
proof -
  have "0 \<le> r * (2 * M)" using assms by simp
  moreover have "r * (2 * M) \<le> 1 * (2 * M)" using assms by (intro mult_right_mono) simp_all
  ultimately show ?thesis by simp
qed

text \<open>
  C9, as the code has it. For draws in \<open>[0, 1)\<close>, \<^verbatim>\<open>random_location\<close> yields a point with
  \<open>MIN_X \<le> x \<le> MAX_X\<close> and \<open>MIN_Y \<le> y \<le> MAX_Y\<close>, where the box has width
  \<open>MAX_X - MIN_X\<close> and height \<open>MAX_Y - MIN_Y\<close> and is centred on the origin
  (\<open>MIN_X = - MAX_X\<close>, \<open>MIN_Y = - MAX_Y\<close>): the sampler subtracts \<^verbatim>\<open>MAX_X\<close> and \<^verbatim>\<open>MAX_Y\<close>
  from the scaled draws.
\<close>

theorem random_location_in_bounds:
  assumes "0 \<le> rnd (drawn w)" and "rnd (drawn w) < 1"
    and "0 \<le> rnd (drawn w + 1)" and "rnd (drawn w + 1) < 1"
    and "BOUNDS_WIDTH k = MAX_X k - MIN_X k" and "BOUNDS_HEIGHT k = MAX_Y k - MIN_Y k"
    and "MIN_X k = - MAX_X k" and "MIN_Y k = - MAX_Y k"
    and "MIN_X k \<le> MAX_X k" and "MIN_Y k \<le> MAX_Y k"
  shows "MIN_X k \<le> p_x (fst (random_location k rnd w)) \<and>
         p_x (fst (random_location k rnd w)) \<le> MAX_X k \<and>
         MIN_Y k \<le> p_y (fst (random_location k rnd w)) \<and>
         p_y (fst (random_location k rnd w)) \<le> MAX_Y k"
proof -
  have mx: "0 \<le> MAX_X k" using assms(7,9) by simp
  have my: "0 \<le> MAX_Y k" using assms(8,10) by simp
  show ?thesis
    using scaled_draw_bounds [OF assms(1,2) mx] scaled_draw_bounds [OF assms(3,4) my]
    by (simp add: random_location_fst assms(5-8))
qed

text \<open>In the box \<open>[-10, 10] \<times> [-10, 10]\<close> the draws \<open>1/2, 1/2\<close> give the origin.\<close>

theorem random_location_in_bounds_witness:
  "MIN_X (constants_of 0 1 (- 1) 3) = - MAX_X (constants_of 0 1 (- 1) 3) \<and>
   BOUNDS_WIDTH (constants_of 0 1 (- 1) 3)
     = MAX_X (constants_of 0 1 (- 1) 3) - MIN_X (constants_of 0 1 (- 1) 3) \<and>
   MIN_X (constants_of 0 1 (- 1) 3)
     \<le> p_x (fst (random_location (constants_of 0 1 (- 1) 3) (\<lambda>n. 1 / 2) (world_of []))) \<and>
   p_x (fst (random_location (constants_of 0 1 (- 1) 3) (\<lambda>n. 1 / 2) (world_of [])))
     \<le> MAX_X (constants_of 0 1 (- 1) 3) \<and>
   MIN_Y (constants_of 0 1 (- 1) 3)
     \<le> p_y (fst (random_location (constants_of 0 1 (- 1) 3) (\<lambda>n. 1 / 2) (world_of []))) \<and>
   p_y (fst (random_location (constants_of 0 1 (- 1) 3) (\<lambda>n. 1 / 2) (world_of [])))
     \<le> MAX_Y (constants_of 0 1 (- 1) 3)"
proof -
  let ?K = "constants_of 0 1 (- 1) 3"
  have "MIN_X ?K \<le> p_x (fst (random_location ?K (\<lambda>n. 1 / 2) (world_of []))) \<and>
         p_x (fst (random_location ?K (\<lambda>n. 1 / 2) (world_of []))) \<le> MAX_X ?K \<and>
         MIN_Y ?K \<le> p_y (fst (random_location ?K (\<lambda>n. 1 / 2) (world_of []))) \<and>
         p_y (fst (random_location ?K (\<lambda>n. 1 / 2) (world_of []))) \<le> MAX_Y ?K"
    by (rule random_location_in_bounds) (simp_all add: constants_of_def)
  then show ?thesis by (simp add: constants_of_def)
qed

text \<open>
  For the box \<open>[0, 10] \<times> [-10, 10]\<close>, of width 10 and height 20, the draw \<open>1/2\<close> gives
  \<open>x = 1/2 * 10 - 10 = -5\<close>, left of \<open>MIN_X = 0\<close>.
\<close>

theorem random_location_in_bounds_counterexample:
  "BOUNDS_WIDTH ((constants_of 0 1 2 4)\<lparr>BOUNDS_WIDTH := 10, MIN_X := 0\<rparr>)
     = MAX_X ((constants_of 0 1 2 4)\<lparr>BOUNDS_WIDTH := 10, MIN_X := 0\<rparr>)
       - MIN_X ((constants_of 0 1 2 4)\<lparr>BOUNDS_WIDTH := 10, MIN_X := 0\<rparr>) \<and>
   BOUNDS_HEIGHT ((constants_of 0 1 2 4)\<lparr>BOUNDS_WIDTH := 10, MIN_X := 0\<rparr>)
     = MAX_Y ((constants_of 0 1 2 4)\<lparr>BOUNDS_WIDTH := 10, MIN_X := 0\<rparr>)
       - MIN_Y ((constants_of 0 1 2 4)\<lparr>BOUNDS_WIDTH := 10, MIN_X := 0\<rparr>) \<and>
   MIN_X ((constants_of 0 1 2 4)\<lparr>BOUNDS_WIDTH := 10, MIN_X := 0\<rparr>) = 0 \<and>
   p_x (fst (random_location ((constants_of 0 1 2 4)\<lparr>BOUNDS_WIDTH := 10, MIN_X := 0\<rparr>)
          (\<lambda>n. 1 / 2) (world_of []))) = - 5"
  by (simp add: random_location_fst constants_of_def)

subsection \<open>Rounding to doubles\<close>

text \<open>
  A real whose quotient by the spacing of its binade is an integer is a double and rounds
  to itself; so do the integers below \<open>2 ^ 53\<close>, and with them the distance between two
  points of the x axis at integer coordinates that are less than \<open>2 ^ 26\<close> apart.
\<close>

lemma rne_of_int: "rne (of_int z) = z"
  by (simp add: rne_def)

lemma round_double_binade:
  assumes "2 powr of_int e \<le> \<bar>x\<bar>" and "\<bar>x\<bar> < 2 powr of_int (e + 1)"
    and "- 1022 \<le> e" and "\<bar>x\<bar> < 2 ^ 1024 - 2 ^ 970"
  shows "round_double x =
     Finite (of_int (rne (x / 2 powr of_int (e - 52))) * 2 powr of_int (e - 52))"
proof -
  have "(0::real) < 2 powr of_int e" by simp
  then have pos: "0 < \<bar>x\<bar>" using assms(1) by linarith
  have fl: "\<lfloor>log 2 \<bar>x\<bar>\<rfloor> = e"
    using floor_log_eq_powr_iff [of "\<bar>x\<bar>" 2 e] pos assms(1,2) by simp
  have x0: "x \<noteq> 0" using pos by simp
  show ?thesis
    using x0 assms(3,4) by (simp add: round_double_def fl Let_def max_def)
qed

lemma round_double_of_int:
  assumes "\<bar>n\<bar> < 2 ^ 53"
  shows "round_double (of_int n) = Finite (of_int n)"
proof (cases "n = 0")
  case True
  then show ?thesis by (simp add: round_double_def)
next
  case False
  let ?x = "real_of_int n"
  define e where "e = \<lfloor>log 2 \<bar>?x\<bar>\<rfloor>"
  have pos: "0 < \<bar>?x\<bar>" using False by simp
  have ge1: "1 \<le> \<bar>?x\<bar>" using False by (simp add: abs_if)
  have b: "2 powr of_int e \<le> \<bar>?x\<bar> \<and> \<bar>?x\<bar> < 2 powr of_int (e + 1)"
    using floor_log_eq_powr_iff [of "\<bar>?x\<bar>" 2 e] pos e_def by simp
  have e0: "0 \<le> e" unfolding e_def using ge1 by simp
  have lt: "\<bar>?x\<bar> < 2 ^ 53" using assms by (metis of_int_abs of_int_less_numeral_power_cancel_iff)
  have lt': "\<bar>?x\<bar> < 2 powr real_of_int 53" using lt by simp
  have "(2::real) powr real_of_int e < 2 powr real_of_int 53" using b lt' by linarith
  then have "real_of_int e < real_of_int 53" by (rule powr_less_cancel) simp
  then have e52: "e \<le> 52" by linarith
  have small: "\<bar>?x\<bar> < 2 ^ 1024 - 2 ^ 970" using lt by simp
  have q: "(2::real) powr of_int (e - 52) = 1 / 2 ^ nat (52 - e)"
    by (subst powr_int) (use e52 in auto)
  have "?x / 2 powr of_int (e - 52) = of_int (n * 2 ^ nat (52 - e))"
    unfolding q by simp
  then have r: "rne (?x / 2 powr of_int (e - 52)) = n * 2 ^ nat (52 - e)"
    using rne_of_int by metis
  have rd: "round_double ?x =
      Finite (of_int (rne (?x / 2 powr of_int (e - 52))) * 2 powr of_int (e - 52))"
  proof (rule round_double_binade)
    show "2 powr of_int e \<le> \<bar>?x\<bar>" using b by blast
    show "\<bar>?x\<bar> < 2 powr of_int (e + 1)" using b by blast
    show "- 1022 \<le> e" using e0 by simp
    show "\<bar>?x\<bar> < 2 ^ 1024 - 2 ^ 970" by (rule small)
  qed
  have val: "of_int (n * 2 ^ nat (52 - e)) * 2 powr of_int (e - 52) = ?x"
    unfolding q by simp
  show ?thesis by (simp only: rd r val)
qed

lemma ieee_distance_axis:
  assumes "\<bar>a - b\<bar> < 2 ^ 26"
  shows "Point_distance ieee \<lparr>p_x = of_int a, p_y = 0\<rparr> \<lparr>p_x = of_int b, p_y = 0\<rparr>
       = Inr (Finite (of_int \<bar>a - b\<bar>))"
proof -
  let ?d = "a - b"
  have d53: "\<bar>?d\<bar> < 2 ^ 53" using assms by simp
  have "\<bar>?d\<bar> * \<bar>?d\<bar> < 2 ^ 26 * 2 ^ 26"
    using assms by (intro mult_strict_mono) simp_all
  then have sq53: "\<bar>?d * ?d\<bar> < 2 ^ 53" by (simp add: abs_mult)
  have sub: "f_sub ieee (Finite (of_int a)) (Finite (of_int b)) = Finite (of_int ?d)"
    using round_double_of_int [OF d53] by (simp add: ieee_def ieee_sub_def)
  have sub0: "f_sub ieee (Finite 0) (Finite 0) = Finite 0"
    by (simp add: ieee_def ieee_sub_def round_double_def)
  have sq: "f_pow2 ieee (Finite (of_int ?d)) = Inr (Finite (of_int (?d * ?d)))"
    using round_double_of_int [OF sq53] by (simp add: ieee_def)
  have sq0: "f_pow2 ieee (Finite 0) = Inr (Finite 0)"
    by (simp add: ieee_def round_double_def)
  have add: "f_add ieee (Finite (of_int (?d * ?d))) (Finite 0) = Finite (of_int (?d * ?d))"
    using round_double_of_int [OF sq53] by (simp add: ieee_def)
  have "sqrt (real_of_int (?d * ?d)) = real_of_int \<bar>?d\<bar>"
    by (simp add: real_sqrt_mult)
  then have rt: "f_sqrt ieee (Finite (of_int (?d * ?d))) = Inr (Finite (of_int \<bar>?d\<bar>))"
    using round_double_of_int [of "\<bar>?d\<bar>"] d53 by (simp add: ieee_def)
  show ?thesis
    by (simp only: Point_distance_def Point.simps sub sub0 sq sq0 add rt sum.case)
qed

lemma within_radius_axis:
  assumes "\<bar>a - b\<bar> < 2 ^ 26"
    and "location (heap w x) = \<lparr>p_x = of_int a, p_y = 0\<rparr>"
    and "location (heap w y) = \<lparr>p_x = of_int b, p_y = 0\<rparr>"
  shows "within_radius ieee k w x y = Inr (of_int \<bar>a - b\<bar> < CELL_RADIUS k)"
  by (simp add: within_radius_def assms(2,3) ieee_distance_axis [OF assms(1)])

lemma round_double_exact:
  assumes "2 powr of_int e \<le> \<bar>x\<bar>" and "\<bar>x\<bar> < 2 powr of_int (e + 1)"
    and "- 1022 \<le> e" and "\<bar>x\<bar> < 2 ^ 1024 - 2 ^ 970"
    and "x / 2 powr of_int (e - 52) = of_int z"
  shows "round_double x = Finite x"
proof -
  have q: "(2::real) powr of_int (e - 52) \<noteq> 0" by simp
  have "of_int z * 2 powr of_int (e - 52) = x"
    using assms(5) q by (metis nonzero_divide_eq_eq)
  then show ?thesis
    using round_double_binade [OF assms(1-4)] by (simp only: assms(5) rne_of_int)
qed

lemma round_double_9_4: "round_double (9 / 4) = Finite (9 / 4)"
  by (rule round_double_exact [where e = 1 and z = "9 * 2 ^ 49"])
     (simp_all add: powr_minus_divide)

lemma round_double_3_2: "round_double (3 / 2) = Finite (3 / 2)"
  by (rule round_double_exact [where e = 0 and z = "3 * 2 ^ 51"])
     (simp_all add: powr_minus_divide)

lemma round_double_below_3_2: "round_double (54043195528445949 / 2 ^ 55) = Finite (3 / 2)"
proof -
  let ?x = "54043195528445949 / 2 ^ 55 :: real"
  have r: "rne (?x / 2 powr of_int (0 - 52)) = 6755399441055744"
    by (simp add: rne_def Let_def powr_minus_divide)
  have "round_double ?x =
      Finite (of_int (rne (?x / 2 powr of_int (0 - 52))) * 2 powr of_int (0 - 52))"
    by (rule round_double_binade) simp_all
  then show ?thesis unfolding r by (simp add: powr_minus_divide)
qed

lemma round_double_pow_600: "round_double (- (2 ^ 600)) = Finite (- (2 ^ 600))"
  by (rule round_double_exact [where e = 600 and z = "- (2 ^ 52)"]) simp_all

lemma round_double_pow_1200: "round_double (2 ^ 1200) = PosInf"
  by (simp add: round_double_def)

lemma cell_at_within_radius:
  assumes "\<bar>a - b\<bar> < 2 ^ 26"
    and "heap w x = cell_at (of_int a) s" and "heap w y = cell_at (of_int b) t"
  shows "within_radius ieee k w x y = Inr (of_int \<bar>a - b\<bar> < CELL_RADIUS k)"
  by (rule within_radius_axis [OF assms(1)]) (simp_all add: assms(2,3) cell_at_def)

subsection \<open>The contact pass\<close>

lemma contact_with_frame:
  "location (heap (contact_with k a b w) x) = location (heap w x) \<and>
   direction (heap (contact_with k a b w) x) = direction (heap w x) \<and>
   fresh (contact_with k a b w) = fresh w \<and> drawn (contact_with k a b w) = drawn w"
  by (simp add: contact_with_def Let_def contract_disease_def)

lemma contact_with_calls: "calls (contact_with k a b w) = calls w @ [(a, b)]"
  by (simp add: contact_with_def Let_def)

lemma apply_contacts_Nil: "apply_contacts k [] w = w"
  by (simp add: apply_contacts_def)

lemma apply_contacts_Cons:
  "apply_contacts k ((a, b) # ps) w = apply_contacts k ps (contact_with k a b w)"
  by (simp add: apply_contacts_def)

lemma apply_contacts_append:
  "apply_contacts k (ps @ qs) w = apply_contacts k qs (apply_contacts k ps w)"
  by (simp add: apply_contacts_def)

lemma apply_contacts_frame:
  "location (heap (apply_contacts k ps w) x) = location (heap w x) \<and>
   direction (heap (apply_contacts k ps w) x) = direction (heap w x) \<and>
   fresh (apply_contacts k ps w) = fresh w \<and> drawn (apply_contacts k ps w) = drawn w"
proof (induction ps arbitrary: w)
  case Nil
  show ?case by (simp add: apply_contacts_Nil)
next
  case (Cons p ps)
  obtain a b where p: "p = (a, b)" by (cases p)
  show ?case
    unfolding p apply_contacts_Cons
    using Cons.IH [of "contact_with k a b w"] contact_with_frame [of k a b w x] by simp
qed

lemma apply_contacts_calls: "calls (apply_contacts k ps w) = calls w @ ps"
proof (induction ps arbitrary: w)
  case Nil
  show ?case by (simp add: apply_contacts_Nil)
next
  case (Cons p ps)
  obtain a b where p: "p = (a, b)" by (cases p)
  show ?case unfolding p apply_contacts_Cons by (simp add: Cons.IH contact_with_calls)
qed

lemma within_radius_locations:
  "\<forall>x. location (heap w x) = location (heap w0 x) \<Longrightarrow>
     within_radius fa k w a b = within_radius fa k w0 a b"
  by (simp add: within_radius_def)

lemma contacts_while_scan:
  "\<forall>x. location (heap w x) = location (heap w0 x) \<Longrightarrow>
   contacts_while fa k pop cell used_cells i w =
     (snd (scan_row (within_radius fa k w0) cell used_cells (drop i pop)),
      apply_contacts k (fst (scan_row (within_radius fa k w0) cell used_cells (drop i pop))) w)"
proof (induction fa k pop cell used_cells i w rule: contacts_while.induct)
  case (1 fa k pop cell used_cells i w)
  show ?case
  proof (cases "i < length pop")
    case False
    then show ?thesis by (subst contacts_while.simps) (simp add: apply_contacts_Nil)
  next
    case True
    let ?p = "pop ! i"
    have d: "drop i pop = ?p # drop (i + 1) pop"
      using True by (simp add: Cons_nth_drop_Suc)
    have wr: "within_radius fa k w cell ?p = within_radius fa k w0 cell ?p"
      by (rule within_radius_locations [OF "1.prems"])
    show ?thesis
    proof (cases "cell = ?p \<or> ?p \<in> set used_cells")
      case skip: True
      show ?thesis
        using True skip "1.IH"(1) [OF True skip "1.prems"]
        by (subst contacts_while.simps) (simp add: d)
    next
      case noskip: False
      show ?thesis
      proof (cases "within_radius fa k w0 cell ?p")
        case (Inl e)
        show ?thesis
          using True noskip Inl wr
          by (subst contacts_while.simps) (simp add: d apply_contacts_Nil)
      next
        case (Inr near)
        have wr': "within_radius fa k w cell ?p = Inr near" using wr Inr by simp
        show ?thesis
        proof (cases near)
          case t: True
          have loc: "\<forall>x. location (heap (contact_with k cell ?p w) x) = location (heap w0 x)"
            using "1.prems" by (simp add: contact_with_frame)
          show ?thesis
            using True noskip Inr wr' t "1.IH"(2) [OF True noskip wr' t loc]
            by (subst contacts_while.simps)
               (simp add: d apply_contacts_Cons split: prod.splits)
        next
          case f: False
          show ?thesis
            using True noskip Inr wr' f "1.IH"(3) [OF True noskip wr' f "1.prems"]
            by (subst contacts_while.simps) (simp add: d split: prod.splits)
        qed
      qed
    qed
  qed
qed

lemma contacts_for_scan:
  "\<forall>x. location (heap w x) = location (heap w0 x) \<Longrightarrow>
   contacts_for fa k pop used_cells cs w =
     (snd (scan_all (within_radius fa k w0) pop used_cells cs),
      apply_contacts k (fst (scan_all (within_radius fa k w0) pop used_cells cs)) w)"
proof (induction cs arbitrary: used_cells w)
  case Nil
  show ?case by (simp add: apply_contacts_Nil)
next
  case (Cons c cs)
  obtain xs r where row: "scan_row (within_radius fa k w0) c (used_cells @ [c]) pop = (xs, r)"
    by (cases "scan_row (within_radius fa k w0) c (used_cells @ [c]) pop")
  have w1: "contacts_while fa k pop c (used_cells @ [c]) 0 w = (r, apply_contacts k xs w)"
    using contacts_while_scan [OF Cons.prems, of fa k pop c "used_cells @ [c]" 0]
    by (simp add: row)
  show ?case
  proof (cases r)
    case (Some e)
    show ?thesis by (simp add: w1 row Some)
  next
    case None
    obtain ys r2 where
      rest: "scan_all (within_radius fa k w0) pop (used_cells @ [c]) cs = (ys, r2)"
      by (cases "scan_all (within_radius fa k w0) pop (used_cells @ [c]) cs")
    have loc1: "\<forall>x. location (heap (apply_contacts k xs w) x) = location (heap w0 x)"
      using Cons.prems by (simp add: apply_contacts_frame)
    have "contacts_for fa k pop (used_cells @ [c]) cs (apply_contacts k xs w) =
        (r2, apply_contacts k ys (apply_contacts k xs w))"
      using Cons.IH [OF loc1, of "used_cells @ [c]"] by (simp add: rest)
    then show ?thesis by (simp add: w1 row None rest apply_contacts_append)
  qed
qed

lemma check_contacts_scan:
  "check_contacts fa k (m, w) =
     (snd (scan_all (within_radius fa k w) (population m) [] (population m)),
      m,
      apply_contacts k
        (fst (scan_all (within_radius fa k w) (population m) [] (population m))) w)"
  using contacts_for_scan [of w w fa k "population m" "[]" "population m"]
  by (simp add: check_contacts_def)

text \<open>
  C10. \<^verbatim>\<open>check_contacts\<close>, whether it returns or raises, leaves the model (its population
  list and its time) as it was, leaves the location and the direction of every cell as
  they were, builds no cell and draws no random number: a cell can differ from its value
  before the pass only in its sickness. This holds for every floating-point arithmetic.
\<close>

theorem check_contacts_frame:
  "fst (snd (check_contacts fa k (m, w))) = m \<and>
   (\<forall>a. location (heap (snd (snd (check_contacts fa k (m, w)))) a) = location (heap w a) \<and>
        direction (heap (snd (snd (check_contacts fa k (m, w)))) a) = direction (heap w a)) \<and>
   fresh (snd (snd (check_contacts fa k (m, w)))) = fresh w \<and>
   drawn (snd (snd (check_contacts fa k (m, w)))) = drawn w"
  by (simp add: check_contacts_scan apply_contacts_frame)

lemma scan_row_prefix:
  "\<exists>rest. map (Pair c) (filter (\<lambda>p. \<not> (c = p \<or> p \<in> set used_cells) \<and> near c p = Inr True) ps)
       = fst (scan_row near c used_cells ps) @ rest \<and>
     (snd (scan_row near c used_cells ps) = None \<longrightarrow> rest = [])"
proof (induction ps)
  case Nil
  show ?case by simp
next
  case (Cons p ps)
  let ?Q = "\<lambda>p. \<not> (c = p \<or> p \<in> set used_cells) \<and> near c p = Inr True"
  obtain xs r where sr: "scan_row near c used_cells ps = (xs, r)"
    by (cases "scan_row near c used_cells ps")
  from Cons obtain rest where
    ih: "map (Pair c) (filter ?Q ps) = xs @ rest" and ihn: "r = None \<longrightarrow> rest = []"
    by (auto simp: sr)
  show ?case
  proof (cases "c = p \<or> p \<in> set used_cells")
    case True
    then have "scan_row near c used_cells (p # ps) = (xs, r)" by (simp add: sr)
    moreover have "filter ?Q (p # ps) = filter ?Q ps" using True by auto
    ultimately show ?thesis using ih ihn by (simp del: filter.simps scan_row.simps)
  next
    case False
    show ?thesis
    proof (cases "near c p")
      case (Inl e)
      then have "scan_row near c used_cells (p # ps) = ([], Some e)" using False by simp
      then show ?thesis by (simp del: filter.simps scan_row.simps)
    next
      case (Inr t)
      show ?thesis
      proof (cases t)
        case True
        have s: "scan_row near c used_cells (p # ps) = ((c, p) # xs, r)"
          using False Inr True by (simp add: sr)
        have f: "map (Pair c) (filter ?Q (p # ps)) = (c, p) # xs @ rest"
          using False Inr True ih by simp
        show ?thesis unfolding s f using ihn by simp
      next
        case f: False
        have s: "scan_row near c used_cells (p # ps) = (xs, r)"
          using False Inr f by (simp add: sr)
        have fl: "map (Pair c) (filter ?Q (p # ps)) = xs @ rest"
          using False Inr f ih by simp
        show ?thesis unfolding s fl using ihn by simp
      qed
    qed
  qed
qed

lemma scan_all_prefix:
  "\<exists>rest. contact_pairs (\<lambda>a b. near a b = Inr True) pop used_cells cs
       = fst (scan_all near pop used_cells cs) @ rest \<and>
     (snd (scan_all near pop used_cells cs) = None \<longrightarrow> rest = [])"
proof (induction cs arbitrary: used_cells)
  case Nil
  show ?case by simp
next
  case (Cons c cs)
  obtain xs r where row: "scan_row near c (used_cells @ [c]) pop = (xs, r)"
    by (cases "scan_row near c (used_cells @ [c]) pop")
  obtain rest1 where
    r1: "map (Pair c)
           (filter (\<lambda>p. \<not> (c = p \<or> p \<in> set (used_cells @ [c])) \<and> near c p = Inr True) pop)
         = xs @ rest1"
    and r1n: "r = None \<longrightarrow> rest1 = []"
    using scan_row_prefix [of c "used_cells @ [c]" near pop] by (auto simp: row)
  obtain ys r2 where rest: "scan_all near pop (used_cells @ [c]) cs = (ys, r2)"
    by (cases "scan_all near pop (used_cells @ [c]) cs")
  obtain rest2 where
    r2: "contact_pairs (\<lambda>a b. near a b = Inr True) pop (used_cells @ [c]) cs = ys @ rest2"
    and r2n: "r2 = None \<longrightarrow> rest2 = []"
    using Cons.IH [of "used_cells @ [c]"] by (auto simp: rest)
  show ?case
  proof (cases r)
    case None
    then show ?thesis using r1 r1n r2 r2n by (simp add: row rest)
  next
    case (Some e)
    then show ?thesis using r1 by (simp add: row)
  qed
qed

lemma count_list_map_Pair:
  "count_list (map (Pair c) xs) (a, b) = (if c = a then count_list xs b else 0)"
  by (induction xs) auto

lemma count_list_filter:
  "count_list (filter Q xs) b = (if Q b then count_list xs b else 0)"
  by (induction xs) auto

lemma count_list_distinct:
  "distinct xs \<Longrightarrow> count_list xs b = (if b \<in> set xs then 1 else 0)"
  by (induction xs) auto

lemma before_members: "before cs a b \<Longrightarrow> a \<in> set cs \<and> b \<in> set cs"
  by (induction cs) auto

lemma before_asym: "distinct cs \<Longrightarrow> before cs a b \<Longrightarrow> \<not> before cs b a \<and> a \<noteq> b"
  by (induction cs) (auto dest: before_members)

lemma before_total:
  "a \<in> set cs \<Longrightarrow> b \<in> set cs \<Longrightarrow> a \<noteq> b \<Longrightarrow> before cs a b \<or> before cs b a"
  by (induction cs) auto

lemma contact_pairs_count:
  assumes "distinct (used_cells @ cs)"
  shows "count_list (contact_pairs near (used_cells @ cs) used_cells cs) (a, b) =
     (if before cs a b \<and> near a b then 1 else 0)"
  using assms
proof (induction cs arbitrary: used_cells)
  case Nil
  show ?case by simp
next
  case (Cons c cs)
  let ?pop = "used_cells @ c # cs"
  have d: "distinct ((used_cells @ [c]) @ cs)" using Cons.prems by simp
  have ih: "count_list (contact_pairs near ?pop (used_cells @ [c]) cs) (a, b) =
      (if before cs a b \<and> near a b then 1 else 0)"
    using Cons.IH [OF d] by simp
  have cfresh: "c \<notin> set used_cells" "c \<notin> set cs" using Cons.prems by auto
  have dcs: "distinct cs" and du: "distinct used_cells" using Cons.prems by simp_all
  have disj: "\<And>z. z \<in> set cs \<Longrightarrow> z \<notin> set used_cells" using Cons.prems by auto
  have bm: "before cs a b \<Longrightarrow> a \<in> set cs \<and> b \<in> set cs" by (rule before_members)
  show ?case
    using ih cfresh disj bm
    by (auto simp: count_list_map_Pair count_list_filter
          count_list_distinct [OF dcs] count_list_distinct [OF du])
qed

lemma contact_pairs_members:
  "(x, y) \<in> set (contact_pairs near pop used_cells cs) \<Longrightarrow>
     x \<in> set cs \<and> y \<in> set pop \<and> x \<noteq> y"
  by (induction cs arbitrary: used_cells) auto

text \<open>
  C7, as the code has it. The distance that decides a contact is the one \<^verbatim>\<open>Point.distance\<close>
  computes in floating-point arithmetic, and the pass ends early when that computation
  raises. In a pass of \<^verbatim>\<open>check_contacts\<close> over a population of distinct cells (every
  population that \<^verbatim>\<open>Model.__init__\<close> builds is one, see \<open>Model_init_distinct\<close>), for two
  cells of which \<open>a\<close> stands before \<open>b\<close> in the population (of two different cells one
  stands before the other, see \<open>before_total\<close>): every invocation of \<^verbatim>\<open>contact_with\<close> is
  between two different cells of the population; there is at most one between \<open>a\<close> and
  \<open>b\<close>, and none as \<^verbatim>\<open>b.contact_with(a)\<close>; and when the pass returns, there is exactly one,
  \<^verbatim>\<open>a.contact_with(b)\<close>, if the computed distance from \<open>a\<close> to \<open>b\<close> is strictly less than
  \<^verbatim>\<open>CELL_RADIUS\<close>, and none otherwise. This holds for every floating-point arithmetic.
\<close>

theorem check_contacts_each_pair_once:
  assumes "distinct (population m)" and "before (population m) a b"
  shows "\<exists>new. calls (snd (snd (check_contacts fa k (m, w)))) = calls w @ new \<and>
     (\<forall>(x, y) \<in> set new. x \<in> set (population m) \<and> y \<in> set (population m) \<and> x \<noteq> y) \<and>
     contacts_between new a b \<le> 1 \<and>
     count_list new (b, a) = 0 \<and>
     (fst (check_contacts fa k (m, w)) = None \<longrightarrow>
        count_list new (a, b) = (if within_radius fa k w a b = Inr True then 1 else 0))"
proof -
  let ?pop = "population m"
  let ?near = "within_radius fa k w"
  let ?new = "fst (scan_all ?near ?pop [] ?pop)"
  let ?full = "contact_pairs (\<lambda>a b. ?near a b = Inr True) ?pop [] ?pop"
  have "\<exists>rest. ?full = ?new @ rest \<and>
      (snd (scan_all ?near ?pop [] ?pop) = None \<longrightarrow> rest = [])"
    by (rule scan_all_prefix)
  then obtain rest where both: "?full = ?new @ rest \<and>
      (snd (scan_all ?near ?pop [] ?pop) = None \<longrightarrow> rest = [])" ..
  have full: "?full = ?new @ rest" using both by (rule conjunct1)
  have norm: "snd (scan_all ?near ?pop [] ?pop) = None \<longrightarrow> rest = []"
    using both by (rule conjunct2)
  have c: "calls (snd (snd (check_contacts fa k (m, w)))) = calls w @ ?new"
    by (simp add: check_contacts_scan apply_contacts_calls)
  have nb: "\<not> before ?pop b a" using before_asym [OF assms] by blast
  have cab: "count_list ?full (a, b) = (if ?near a b = Inr True then 1 else 0)"
    using contact_pairs_count [of "[]" ?pop "\<lambda>a b. ?near a b = Inr True" a b] assms by simp
  have cba: "count_list ?full (b, a) = 0"
    using contact_pairs_count [of "[]" ?pop "\<lambda>a b. ?near a b = Inr True" b a] assms(1) nb
    by simp
  have le1: "count_list ?new (a, b) \<le> count_list ?full (a, b)"
    and le2: "count_list ?new (b, a) \<le> count_list ?full (b, a)"
    by (simp_all add: full)
  have mem: "\<forall>(x, y) \<in> set ?new. x \<in> set ?pop \<and> y \<in> set ?pop \<and> x \<noteq> y"
  proof (clarify)
    fix x y assume "(x, y) \<in> set ?new"
    then have "(x, y) \<in> set ?full" by (simp add: full)
    then show "x \<in> set ?pop \<and> y \<in> set ?pop \<and> x \<noteq> y"
      by (rule contact_pairs_members)
  qed
  have once: "contacts_between ?new a b \<le> 1"
    using le1 le2 cab cba by (simp add: contacts_between_def split: if_splits)
  have zero: "count_list ?new (b, a) = 0" using le2 cba by simp
  have exact: "fst (check_contacts fa k (m, w)) = None \<longrightarrow>
      count_list ?new (a, b) = (if ?near a b = Inr True then 1 else 0)"
  proof
    assume "fst (check_contacts fa k (m, w)) = None"
    then have "rest = []" using norm by (simp add: check_contacts_scan)
    then show "count_list ?new (a, b) = (if ?near a b = Inr True then 1 else 0)"
      using cab full by simp
  qed
  show ?thesis
  proof (intro exI conjI)
    show "calls (snd (snd (check_contacts fa k (m, w)))) = calls w @ ?new" by (rule c)
    show "\<forall>(x, y) \<in> set ?new. x \<in> set ?pop \<and> y \<in> set ?pop \<and> x \<noteq> y" by (rule mem)
    show "contacts_between ?new a b \<le> 1" by (rule once)
    show "count_list ?new (b, a) = 0" by (rule zero)
    show "fst (check_contacts fa k (m, w)) = None \<longrightarrow>
      count_list ?new (a, b) = (if ?near a b = Inr True then 1 else 0)" by (rule exact)
  qed
qed

text \<open>
  In double arithmetic, cells at \<open>x = 0, 1, 5\<close> with radius \<open>3/2\<close>: the pass returns, with
  one contact between the first two and none between the first and the third.
\<close>

theorem check_contacts_each_pair_once_witness:
  "distinct (population \<lparr>population = [0, 1, 2], time = 0\<rparr>) \<and>
   before (population \<lparr>population = [0, 1, 2], time = 0\<rparr>) 0 1 \<and>
   fst (check_contacts ieee (constants_of 0 1 (- 1) 3)
      (\<lparr>population = [0, 1, 2], time = 0\<rparr>,
       world_of [cell_at 0 1, cell_at 1 0, cell_at 5 0])) = None \<and>
   count_list
     (calls (snd (snd (check_contacts ieee (constants_of 0 1 (- 1) 3)
        (\<lparr>population = [0, 1, 2], time = 0\<rparr>,
         world_of [cell_at 0 1, cell_at 1 0, cell_at 5 0]))))) (0, 1) = 1 \<and>
   count_list
     (calls (snd (snd (check_contacts ieee (constants_of 0 1 (- 1) 3)
        (\<lparr>population = [0, 1, 2], time = 0\<rparr>,
         world_of [cell_at 0 1, cell_at 1 0, cell_at 5 0]))))) (1, 0) = 0 \<and>
   count_list
     (calls (snd (snd (check_contacts ieee (constants_of 0 1 (- 1) 3)
        (\<lparr>population = [0, 1, 2], time = 0\<rparr>,
         world_of [cell_at 0 1, cell_at 1 0, cell_at 5 0]))))) (0, 2) = 0"
proof -
  let ?K = "constants_of 0 1 (- 1) 3"
  let ?M = "\<lparr>population = [0, 1, 2], time = 0\<rparr>"
  let ?W = "world_of [cell_at 0 1, cell_at 1 0, cell_at 5 0]"
  let ?R = "check_contacts ieee ?K (?M, ?W)"
  have d: "distinct (population ?M)" by simp
  have b01: "before (population ?M) 0 1" and b02: "before (population ?M) 0 2" by simp_all
  have r: "CELL_RADIUS ?K = 3 / 2" by (simp add: constants_of_def)
  have e: "calls ?W = []" by (simp add: world_of_def)
  have n01: "within_radius ieee ?K ?W 0 (Suc 0) = Inr True"
    using cell_at_within_radius [of 0 1 ?W 0 1 "Suc 0" 0 ?K] by (simp add: world_of_def r)
  have n02: "within_radius ieee ?K ?W 0 2 = Inr False"
    using cell_at_within_radius [of 0 5 ?W 0 1 2 0 ?K] by (simp add: world_of_def r)
  have n12: "within_radius ieee ?K ?W (Suc 0) 2 = Inr False"
    using cell_at_within_radius [of 1 5 ?W "Suc 0" 0 2 0 ?K] by (simp add: world_of_def r)
  have ok: "fst ?R = None"
    by (simp add: check_contacts_scan n01 n02 n12)
  from check_contacts_each_pair_once [OF d b01, of ieee ?K ?W]
  obtain new where A: "calls (snd (snd ?R)) = calls ?W @ new \<and>
     (\<forall>(x, y) \<in> set new. x \<in> set (population ?M) \<and> y \<in> set (population ?M) \<and> x \<noteq> y) \<and>
     contacts_between new 0 1 \<le> 1 \<and>
     count_list new (1, 0) = 0 \<and>
     (fst ?R = None \<longrightarrow>
        count_list new (0, 1) = (if within_radius ieee ?K ?W 0 1 = Inr True then 1 else 0))" ..
  have new: "calls (snd (snd ?R)) = new" using A e by simp
  have c01: "count_list (calls (snd (snd ?R))) (0, 1) = 1"
    using A ok n01 unfolding new by simp
  have c10: "count_list (calls (snd (snd ?R))) (1, 0) = 0"
    using A unfolding new by simp
  from check_contacts_each_pair_once [OF d b02, of ieee ?K ?W]
  obtain new' where B: "calls (snd (snd ?R)) = calls ?W @ new' \<and>
     (\<forall>(x, y) \<in> set new'. x \<in> set (population ?M) \<and> y \<in> set (population ?M) \<and> x \<noteq> y) \<and>
     contacts_between new' 0 2 \<le> 1 \<and>
     count_list new' (2, 0) = 0 \<and>
     (fst ?R = None \<longrightarrow>
        count_list new' (0, 2) = (if within_radius ieee ?K ?W 0 2 = Inr True then 1 else 0))" ..
  have new': "calls (snd (snd ?R)) = new'" using B e by simp
  have c02: "count_list (calls (snd (snd ?R))) (0, 2) = 0"
    using B ok n02 unfolding new' by simp
  show ?thesis using d b01 ok c01 c10 c02 by (intro conjI)
qed

text \<open>
  In double arithmetic with radius \<open>3/2\<close>. Two cells at the doubles nearest to \<open>0.1\<close> and
  \<open>-1.4\<close> are less than \<open>3/2\<close> apart, but the difference of the coordinates rounds to
  \<open>3/2\<close>, the computed distance is \<open>3/2\<close>, and the pass makes no contact. Three cells at
  \<open>0\<close>, \<open>2 ^ 600\<close> and \<open>1\<close>: the first and the third are 1 apart, but the square for the
  first and the second raises \<^verbatim>\<open>OverflowError\<close> and the pass ends without a contact.
\<close>

theorem check_contacts_each_pair_once_counterexample:
  "sqrt ((double_0_1 - double_neg_1_4)\<^sup>2 + (0 - 0)\<^sup>2) < CELL_RADIUS (constants_of 0 1 2 4) \<and>
   check_contacts ieee (constants_of 0 1 2 4)
     (\<lparr>population = [0, 1], time = 0\<rparr>,
      world_of [cell_at double_0_1 1, cell_at double_neg_1_4 0])
   = (None, \<lparr>population = [0, 1], time = 0\<rparr>,
      world_of [cell_at double_0_1 1, cell_at double_neg_1_4 0]) \<and>
   sqrt ((0 - 1)\<^sup>2 + (0 - 0)\<^sup>2) < CELL_RADIUS (constants_of 0 1 2 4) \<and>
   check_contacts ieee (constants_of 0 1 2 4)
     (\<lparr>population = [0, 1, 2], time = 0\<rparr>,
      world_of [cell_at 0 1, cell_at double_huge 0, cell_at 1 0])
   = (Some OverflowError, \<lparr>population = [0, 1, 2], time = 0\<rparr>,
      world_of [cell_at 0 1, cell_at double_huge 0, cell_at 1 0])"
proof -
  let ?K = "constants_of 0 1 2 4"
  let ?W = "world_of [cell_at double_0_1 1, cell_at double_neg_1_4 0]"
  let ?W2 = "world_of [cell_at 0 1, cell_at double_huge 0, cell_at 1 0]"
  have r: "CELL_RADIUS ?K = 3 / 2" by (simp add: constants_of_def)
  have diff: "double_0_1 + - double_neg_1_4 = 54043195528445949 / 2 ^ 55"
    by (simp add: double_0_1_def double_neg_1_4_def)
  have sub: "f_sub ieee (Finite double_0_1) (Finite double_neg_1_4) = Finite (3 / 2)"
    by (simp only: ieee_def arith.simps ieee_sub_def pyfloat_neg.simps ieee_add.simps diff
        round_double_below_3_2)
  have sub0: "f_sub ieee (Finite 0) (Finite 0) = Finite 0"
    by (simp add: ieee_def ieee_sub_def round_double_def)
  have sq: "f_pow2 ieee (Finite (3 / 2)) = Inr (Finite (9 / 4))"
    using round_double_9_4 by (simp add: ieee_def)
  have sq0: "f_pow2 ieee (Finite 0) = Inr (Finite 0)"
    by (simp add: ieee_def round_double_def)
  have add: "f_add ieee (Finite (9 / 4)) (Finite 0) = Finite (9 / 4)"
    using round_double_9_4 by (simp add: ieee_def)
  have sq94: "sqrt (9 / 4) = (3 / 2 :: real)"
    by (rule real_sqrt_unique) (simp_all add: power2_eq_square)
  have "f_sqrt ieee (Finite (9 / 4)) = Inr (round_double (sqrt (9 / 4)))"
    by (simp add: ieee_def)
  then have rt: "f_sqrt ieee (Finite (9 / 4)) = Inr (Finite (3 / 2))"
    by (simp only: sq94 round_double_3_2)
  have dist: "Point_distance ieee \<lparr>p_x = double_0_1, p_y = 0\<rparr> \<lparr>p_x = double_neg_1_4, p_y = 0\<rparr>
      = Inr (Finite (3 / 2))"
    by (simp only: Point_distance_def Point.simps sub sub0 sq sq0 add rt sum.case)
  have la: "location (heap ?W 0) = \<lparr>p_x = double_0_1, p_y = 0\<rparr>"
    and lb: "location (heap ?W (Suc 0)) = \<lparr>p_x = double_neg_1_4, p_y = 0\<rparr>"
    by (simp_all add: cfg_simps)
  have far: "within_radius ieee ?K ?W 0 (Suc 0) = Inr False"
    by (simp only: within_radius_def la lb dist sum.case r pyfloat_less.simps) simp
  have A: "check_contacts ieee ?K (\<lparr>population = [0, 1], time = 0\<rparr>, ?W)
      = (None, \<lparr>population = [0, 1], time = 0\<rparr>, ?W)"
    by (simp add: check_contacts_scan far apply_contacts_Nil)
  have eu: "sqrt ((double_0_1 - double_neg_1_4)\<^sup>2 + (0 - 0)\<^sup>2) < CELL_RADIUS ?K"
    unfolding r by (simp add: double_0_1_def double_neg_1_4_def)
  have subo: "f_sub ieee (Finite 0) (Finite double_huge) = Finite (- (2 ^ 600))"
    using round_double_pow_600 by (simp add: ieee_def ieee_sub_def double_huge_def)
  have "(- (2 ^ 600) :: real) * - (2 ^ 600) = 2 ^ 1200" by simp
  then have "ieee_pow2 (Finite (- (2 ^ 600))) = Inl OverflowError"
    by (simp only: ieee_pow2.simps round_double_pow_1200 pyfloat.case)
  then have sqo: "f_pow2 ieee (Finite (- (2 ^ 600))) = Inl OverflowError"
    by (simp add: ieee_def)
  have disto: "Point_distance ieee \<lparr>p_x = 0, p_y = 0\<rparr> \<lparr>p_x = double_huge, p_y = 0\<rparr>
      = Inl OverflowError"
    by (simp only: Point_distance_def Point.simps subo sqo sum.case)
  have l0: "location (heap ?W2 0) = \<lparr>p_x = 0, p_y = 0\<rparr>"
    and l1: "location (heap ?W2 (Suc 0)) = \<lparr>p_x = double_huge, p_y = 0\<rparr>"
    by (simp_all add: cfg_simps)
  have ovf: "within_radius ieee ?K ?W2 0 (Suc 0) = Inl OverflowError"
    by (simp only: within_radius_def l0 l1 disto sum.case)
  have B: "check_contacts ieee ?K (\<lparr>population = [0, 1, 2], time = 0\<rparr>, ?W2)
      = (Some OverflowError, \<lparr>population = [0, 1, 2], time = 0\<rparr>, ?W2)"
    by (simp add: check_contacts_scan ovf apply_contacts_Nil)
  have eu2: "sqrt ((0 - 1)\<^sup>2 + (0 - 0)\<^sup>2) < CELL_RADIUS ?K"
    unfolding r by simp
  show ?thesis using eu A eu2 B by (intro conjI)
qed

subsection \<open>Order of the contacts\<close>

lemma contact_with_sickness:
  "sickness (heap (contact_with k a b w) x) =
     (if is_infected k (heap w a) \<and> is_vulnerable k (heap w b) then
        (if x = b then INFECTED k else sickness (heap w x))
      else if is_vulnerable k (heap w a) \<and> is_infected k (heap w b) then
        (if x = a then INFECTED k else sickness (heap w x))
      else sickness (heap w x))"
  by (simp add: contact_with_def Let_def contract_disease_def)

lemma apply_contacts_snoc:
  "apply_contacts k (ps @ [(a, b)]) w = contact_with k a b (apply_contacts k ps w)"
  by (simp add: apply_contacts_def)

lemma exposed_snoc:
  "exposed k w (ps @ [(a, b)]) x \<longleftrightarrow>
     exposed k w ps x \<or> a = x \<and> is_infected k (heap w b) \<or> b = x \<and> is_infected k (heap w a)"
  by (auto simp: exposed_def)

lemma exposed_mono: "set ps \<subseteq> set qs \<Longrightarrow> exposed k w ps x \<Longrightarrow> exposed k w qs x"
  by (auto simp: exposed_def)

lemma exposed_member:
  "(a, b) \<in> set ps \<Longrightarrow> is_infected k (heap w a) \<Longrightarrow> exposed k w ps b"
  "(a, b) \<in> set ps \<Longrightarrow> is_infected k (heap w b) \<Longrightarrow> exposed k w ps a"
  by (auto simp: exposed_def)

text \<open>
  One more contact, in terms of the sickness values: \<open>s\<close> before the pass, \<open>s1\<close> before
  the contact, \<open>s2\<close> after it.
\<close>

lemma contact_step_cases:
  fixes sa sb sx s1a s1b s1x s2x V I :: int
  assumes vi: "V < I"
    and xa: "x = a \<Longrightarrow> sx = sa \<and> s1x = s1a \<and> (Epx = Epa) \<and> (Eqx = Eqa)"
    and xb: "x = b \<Longrightarrow> sx = sb \<and> s1x = s1b \<and> (Epx = Epb) \<and> (Eqx = Eqb)"
    and ia1: "(sa = V \<and> Epa \<longrightarrow> s1a = I) \<and> (\<not> (sa = V \<and> Eqa) \<longrightarrow> s1a = sa) \<and> (s1a = I \<or> s1a = sa)"
    and ib1: "(sb = V \<and> Epb \<longrightarrow> s1b = I) \<and> (\<not> (sb = V \<and> Eqb) \<longrightarrow> s1b = sb) \<and> (s1b = I \<or> s1b = sb)"
    and ix1: "(sx = V \<and> Epx \<longrightarrow> s1x = I) \<and> (\<not> (sx = V \<and> Eqx) \<longrightarrow> s1x = sx) \<and> (s1x = I \<or> s1x = sx)"
    and hab: "sa = V \<and> sb = V \<longrightarrow> (Eqa \<longleftrightarrow> Eqb)"
    and ea: "I \<le> sb \<Longrightarrow> Eqa" and eb: "I \<le> sa \<Longrightarrow> Eqb"
    and s2: "s2x =
      (if I \<le> s1a \<and> s1b = V then (if x = b then I else s1x)
       else if s1a = V \<and> I \<le> s1b then (if x = a then I else s1x)
       else s1x)"
  shows "(sx = V \<and> (Epx \<or> a = x \<and> I \<le> sb \<or> b = x \<and> I \<le> sa) \<longrightarrow> s2x = I) \<and>
         (\<not> (sx = V \<and> Eqx) \<longrightarrow> s2x = sx) \<and>
         (s2x = I \<or> s2x = sx)"
proof (intro conjI impI)
  have s2or: "s2x = I \<or> s2x = s1x" unfolding s2 by simp
  show "s2x = I \<or> s2x = sx" using s2or ix1 by blast
  {
    assume n: "\<not> (sx = V \<and> Eqx)"
    then have e: "s1x = sx" using ix1 by blast
    consider (A) "I \<le> s1a \<and> s1b = V" | (B) "\<not> (I \<le> s1a \<and> s1b = V)" "s1a = V \<and> I \<le> s1b"
      | (C) "\<not> (I \<le> s1a \<and> s1b = V)" "\<not> (s1a = V \<and> I \<le> s1b)" by blast
    then show "s2x = sx"
    proof cases
      case A
      show ?thesis
      proof (cases "x = b")
        case False
        then show ?thesis using A e vi by (auto simp: s2)
      next
        case True
        have sbV: "sb = V" using xb [OF True] e A by simp
        have nEb: "\<not> Eqb" using n xb [OF True] sbV by simp
        have "s1a = sa \<or> (sa = V \<and> Eqa)" using ia1 by blast
        then have False
        proof
          assume "s1a = sa"
          then have "I \<le> sa" using A by simp
          then show False using eb nEb by blast
        next
          assume "sa = V \<and> Eqa"
          then show False using hab sbV nEb by blast
        qed
        then show ?thesis ..
      qed
    next
      case B
      show ?thesis
      proof (cases "x = a")
        case False
        then show ?thesis using B e vi by (auto simp: s2)
      next
        case True
        have saV: "sa = V" using xa [OF True] e B by simp
        have nEa: "\<not> Eqa" using n xa [OF True] saV by simp
        have "s1b = sb \<or> (sb = V \<and> Eqb)" using ib1 by blast
        then have False
        proof
          assume "s1b = sb"
          then have "I \<le> sb" using B by simp
          then show False using ea nEa by blast
        next
          assume "sb = V \<and> Eqb"
          then show False using hab saV nEa by blast
        qed
        then show ?thesis ..
      qed
    next
      case C
      then show ?thesis using e vi by (auto simp: s2)
    qed
  }
  {
    assume g: "sx = V \<and> (Epx \<or> a = x \<and> I \<le> sb \<or> b = x \<and> I \<le> sa)"
    then consider (P) "Epx" | (QA) "a = x" "I \<le> sb" | (QB) "b = x" "I \<le> sa" by blast
    then show "s2x = I"
    proof cases
      case P
      then have "s1x = I" using g ix1 by blast
      then show ?thesis using s2or by blast
    next
      case QA
      have xa': "sx = sa \<and> s1x = s1a" using xa QA(1) by blast
      have saV: "sa = V" using g xa' by simp
      have "sb \<noteq> V" using QA(2) vi by linarith
      then have s1b: "s1b = sb" using ib1 by blast
      have "s1a = I \<or> s1a = V" using ia1 saV by blast
      then show ?thesis
      proof
        assume "s1a = I"
        then show ?thesis using s1b QA vi xa' by (auto simp: s2)
      next
        assume "s1a = V"
        then show ?thesis using s1b QA vi xa' by (auto simp: s2)
      qed
    next
      case QB
      have xb': "sx = sb \<and> s1x = s1b" using xb QB(1) by blast
      have sbV: "sb = V" using g xb' by simp
      have "sa \<noteq> V" using QB(2) vi by linarith
      then have s1a: "s1a = sa" using ia1 by blast
      have "s1b = I \<or> s1b = V" using ib1 sbV by blast
      then show ?thesis
      proof
        assume "s1b = I"
        then show ?thesis using s1a QB vi xb' by (auto simp: s2)
      next
        assume "s1b = V"
        then show ?thesis using s1a QB vi xb' by (auto simp: s2)
      qed
    qed
  }
qed

lemma apply_contacts_invariant:
  assumes vi: "VULNERABLE k < INFECTED k"
    and h: "\<forall>(a, b) \<in> set qs. is_vulnerable k (heap w a) \<and> is_vulnerable k (heap w b) \<longrightarrow>
              (exposed k w qs a \<longleftrightarrow> exposed k w qs b)"
    and sub: "set ps \<subseteq> set qs"
  shows "(is_vulnerable k (heap w x) \<and> exposed k w ps x \<longrightarrow>
            sickness (heap (apply_contacts k ps w) x) = INFECTED k) \<and>
         (\<not> (is_vulnerable k (heap w x) \<and> exposed k w qs x) \<longrightarrow>
            sickness (heap (apply_contacts k ps w) x) = sickness (heap w x)) \<and>
         (sickness (heap (apply_contacts k ps w) x) = INFECTED k \<or>
          sickness (heap (apply_contacts k ps w) x) = sickness (heap w x))"
  using sub
proof (induction ps arbitrary: x rule: rev_induct)
  case Nil
  show ?case by (simp add: apply_contacts_Nil exposed_def)
next
  case (snoc p ps)
  obtain a b where p: "p = (a, b)" by (cases p)
  let ?w1 = "apply_contacts k ps w"
  let ?s = "\<lambda>y. sickness (heap w y)"
  let ?s1 = "\<lambda>y. sickness (heap ?w1 y)"
  let ?s2 = "\<lambda>y. sickness (heap (contact_with k a b ?w1) y)"
  have sub': "set ps \<subseteq> set qs" and mem: "(a, b) \<in> set qs" using snoc.prems p by auto
  note ih = snoc.IH [OF sub']
  have V: "\<And>y. is_vulnerable k (heap w y) \<longleftrightarrow> ?s y = VULNERABLE k"
    and V1: "\<And>y. is_vulnerable k (heap ?w1 y) \<longleftrightarrow> ?s1 y = VULNERABLE k"
    and I: "\<And>y. is_infected k (heap w y) \<longleftrightarrow> INFECTED k \<le> ?s y"
    and I1: "\<And>y. is_infected k (heap ?w1 y) \<longleftrightarrow> INFECTED k \<le> ?s1 y"
    by (simp_all add: is_vulnerable_def is_infected_def)
  have hab: "?s a = VULNERABLE k \<and> ?s b = VULNERABLE k \<longrightarrow>
      (exposed k w qs a \<longleftrightarrow> exposed k w qs b)"
    using h mem unfolding V by blast
  have ea: "INFECTED k \<le> ?s b \<Longrightarrow> exposed k w qs a"
    and eb: "INFECTED k \<le> ?s a \<Longrightarrow> exposed k w qs b"
    using exposed_member [OF mem, of k w] by (simp_all add: I)
  have ia1: "(?s a = VULNERABLE k \<and> exposed k w ps a \<longrightarrow> ?s1 a = INFECTED k) \<and>
      (\<not> (?s a = VULNERABLE k \<and> exposed k w qs a) \<longrightarrow> ?s1 a = ?s a) \<and>
      (?s1 a = INFECTED k \<or> ?s1 a = ?s a)"
    using ih [of a] unfolding V .
  have ib1: "(?s b = VULNERABLE k \<and> exposed k w ps b \<longrightarrow> ?s1 b = INFECTED k) \<and>
      (\<not> (?s b = VULNERABLE k \<and> exposed k w qs b) \<longrightarrow> ?s1 b = ?s b) \<and>
      (?s1 b = INFECTED k \<or> ?s1 b = ?s b)"
    using ih [of b] unfolding V .
  have ix1: "(?s x = VULNERABLE k \<and> exposed k w ps x \<longrightarrow> ?s1 x = INFECTED k) \<and>
      (\<not> (?s x = VULNERABLE k \<and> exposed k w qs x) \<longrightarrow> ?s1 x = ?s x) \<and>
      (?s1 x = INFECTED k \<or> ?s1 x = ?s x)"
    using ih [of x] unfolding V .
  have s2: "?s2 x =
      (if INFECTED k \<le> ?s1 a \<and> ?s1 b = VULNERABLE k then
         (if x = b then INFECTED k else ?s1 x)
       else if ?s1 a = VULNERABLE k \<and> INFECTED k \<le> ?s1 b then
         (if x = a then INFECTED k else ?s1 x)
       else ?s1 x)"
    unfolding contact_with_sickness V1 I1 ..
  have step: "(?s x = VULNERABLE k \<and>
        (exposed k w ps x \<or> a = x \<and> INFECTED k \<le> ?s b \<or> b = x \<and> INFECTED k \<le> ?s a)
          \<longrightarrow> ?s2 x = INFECTED k) \<and>
      (\<not> (?s x = VULNERABLE k \<and> exposed k w qs x) \<longrightarrow> ?s2 x = ?s x) \<and>
      (?s2 x = INFECTED k \<or> ?s2 x = ?s x)"
  proof (rule contact_step_cases [OF vi _ _ ia1 ib1 ix1 hab ea eb s2])
    show "x = a \<Longrightarrow> ?s x = ?s a \<and> ?s1 x = ?s1 a \<and>
        exposed k w ps x = exposed k w ps a \<and> exposed k w qs x = exposed k w qs a"
      by simp
    show "x = b \<Longrightarrow> ?s x = ?s b \<and> ?s1 x = ?s1 b \<and>
        exposed k w ps x = exposed k w ps b \<and> exposed k w qs x = exposed k w qs b"
      by simp
  qed
  show ?case
    unfolding p apply_contacts_snoc exposed_snoc V I by (rule step)
qed

lemma apply_contacts_final:
  assumes "VULNERABLE k < INFECTED k"
    and "\<forall>(a, b) \<in> set ps. is_vulnerable k (heap w a) \<and> is_vulnerable k (heap w b) \<longrightarrow>
              (exposed k w ps a \<longleftrightarrow> exposed k w ps b)"
  shows "sickness (heap (apply_contacts k ps w) x) =
     (if is_vulnerable k (heap w x) \<and> exposed k w ps x then INFECTED k
      else sickness (heap w x))"
  using apply_contacts_invariant [OF assms, of ps x] by auto

lemma exposed_unordered:
  "exposed k w ps x \<longleftrightarrow>
     (\<exists>e \<in> unordered ps. \<exists>y. e = {x, y} \<and> is_infected k (heap w y))"
  by (auto simp: exposed_def unordered_def doubleton_eq_iff) blast+

lemma exposed_cong: "unordered ps = unordered qs \<Longrightarrow> exposed k w ps = exposed k w qs"
  by (rule ext) (simp add: exposed_unordered)

lemma unordered_member:
  "(a, b) \<in> set qs \<Longrightarrow> unordered ps = unordered qs \<Longrightarrow>
     (a, b) \<in> set ps \<or> (b, a) \<in> set ps"
proof -
  assume m: "(a, b) \<in> set qs" and u: "unordered ps = unordered qs"
  have "{a, b} \<in> unordered qs" using m by (force simp: unordered_def)
  then have "{a, b} \<in> unordered ps" using u by simp
  then obtain c d where cd: "(c, d) \<in> set ps" and e: "{a, b} = {c, d}"
    by (auto simp: unordered_def)
  from e have "a = c \<and> b = d \<or> a = d \<and> b = c" by (simp add: doubleton_eq_iff)
  then show ?thesis using cd by auto
qed

lemma apply_contacts_order:
  assumes vi: "VULNERABLE k < INFECTED k"
    and u: "unordered qs = unordered ps"
    and h: "\<forall>(a, b) \<in> set ps. is_vulnerable k (heap w a) \<and> is_vulnerable k (heap w b) \<longrightarrow>
              (exposed k w ps a \<longleftrightarrow> exposed k w ps b)"
  shows "sickness (heap (apply_contacts k ps w) x) = sickness (heap (apply_contacts k qs w) x)"
proof -
  have e: "exposed k w qs = exposed k w ps" by (rule exposed_cong [OF u])
  have hq: "\<forall>(a, b) \<in> set qs. is_vulnerable k (heap w a) \<and> is_vulnerable k (heap w b) \<longrightarrow>
              (exposed k w qs a \<longleftrightarrow> exposed k w qs b)"
  proof (clarify)
    fix a b
    assume m: "(a, b) \<in> set qs"
      and va: "is_vulnerable k (heap w a)" and vb: "is_vulnerable k (heap w b)"
    have "(a, b) \<in> set ps \<or> (b, a) \<in> set ps" by (rule unordered_member [OF m u [symmetric]])
    then have "exposed k w ps a \<longleftrightarrow> exposed k w ps b" using h va vb by blast
    then show "exposed k w qs a \<longleftrightarrow> exposed k w qs b" by (simp add: e)
  qed
  show ?thesis
    by (simp add: apply_contacts_final [OF vi h] apply_contacts_final [OF vi hq] e)
qed

text \<open>
  C8, as the code has it. When \<^verbatim>\<open>VULNERABLE < INFECTED\<close> and every pair of two vulnerable
  cells that \<^verbatim>\<open>check_contacts\<close> hands to \<^verbatim>\<open>contact_with\<close> has both cells exposed to an
  infected cell or neither, applying \<^verbatim>\<open>contact_with\<close> over the same unordered pairs in any
  order \<open>qs\<close> gives every cell the sickness that \<^verbatim>\<open>check_contacts\<close> gives it. When one of
  two vulnerable cells in contact is exposed and the other is not, the order matters: the
  exposed cell infects the other one if it has been infected before their contact.
\<close>

theorem check_contacts_order_independent:
  assumes "VULNERABLE k < INFECTED k"
    and "calls (snd (snd (check_contacts fa k (m, w)))) = calls w @ new"
    and "unordered qs = unordered new"
    and "\<forall>(a, b) \<in> set new. is_vulnerable k (heap w a) \<and> is_vulnerable k (heap w b) \<longrightarrow>
           (exposed k w new a \<longleftrightarrow> exposed k w new b)"
  shows "sickness (heap (snd (snd (check_contacts fa k (m, w)))) x)
       = sickness (heap (apply_contacts k qs w) x)"
proof -
  let ?ps = "fst (scan_all (within_radius fa k w) (population m) [] (population m))"
  have run: "snd (snd (check_contacts fa k (m, w))) = apply_contacts k ?ps w"
    by (simp add: check_contacts_scan)
  have new: "new = ?ps" using assms(2) by (simp add: run apply_contacts_calls)
  show ?thesis
    unfolding run new [symmetric]
    by (rule apply_contacts_order [OF assms(1) assms(3) assms(4)])
qed

text \<open>
  Cells at \<open>x = 0, 1, 2, 3\<close>, the outer two infected, the inner two vulnerable and both
  exposed: the pass processes (0, 1), (1, 2), (2, 3); the order (2, 1), (3, 2), (1, 0)
  gives the third cell the same sickness.
\<close>

theorem check_contacts_order_independent_witness:
  "VULNERABLE (constants_of 0 1 (- 1) 3) < INFECTED (constants_of 0 1 (- 1) 3) \<and>
   calls (snd (snd (check_contacts ieee (constants_of 0 1 (- 1) 3)
      (\<lparr>population = [0, 1, 2, 3], time = 0\<rparr>,
       world_of [cell_at 0 1, cell_at 1 0, cell_at 2 0, cell_at 3 1]))))
     = calls (world_of [cell_at 0 1, cell_at 1 0, cell_at 2 0, cell_at 3 1])
       @ [(0, 1), (1, 2), (2, 3)] \<and>
   unordered [(2, 1), (3, 2), (1, 0)] = unordered [(0, 1), (1, 2), (2, 3)] \<and>
   is_vulnerable (constants_of 0 1 (- 1) 3)
     (heap (world_of [cell_at 0 1, cell_at 1 0, cell_at 2 0, cell_at 3 1]) 1) \<and>
   is_vulnerable (constants_of 0 1 (- 1) 3)
     (heap (world_of [cell_at 0 1, cell_at 1 0, cell_at 2 0, cell_at 3 1]) 2) \<and>
   sickness (heap (snd (snd (check_contacts ieee (constants_of 0 1 (- 1) 3)
      (\<lparr>population = [0, 1, 2, 3], time = 0\<rparr>,
       world_of [cell_at 0 1, cell_at 1 0, cell_at 2 0, cell_at 3 1])))) 2)
     = sickness (heap (apply_contacts (constants_of 0 1 (- 1) 3) [(2, 1), (3, 2), (1, 0)]
         (world_of [cell_at 0 1, cell_at 1 0, cell_at 2 0, cell_at 3 1])) 2)"
proof -
  let ?K = "constants_of 0 1 (- 1) 3"
  let ?M = "\<lparr>population = [0, 1, 2, 3], time = 0\<rparr>"
  let ?W = "world_of [cell_at 0 1, cell_at 1 0, cell_at 2 0, cell_at 3 1]"
  have h: "heap ?W 0 = cell_at 0 1" "heap ?W (Suc 0) = cell_at 1 0"
    "heap ?W 2 = cell_at 2 0" "heap ?W 3 = cell_at 3 1"
    by (simp_all add: world_of_def)
  have r: "CELL_RADIUS ?K = 3 / 2" by (simp add: constants_of_def)
  have vi: "VULNERABLE ?K < INFECTED ?K" by (simp add: constants_of_def)
  have n: "within_radius ieee ?K ?W 0 (Suc 0) = Inr True"
    "within_radius ieee ?K ?W 0 2 = Inr False"
    "within_radius ieee ?K ?W 0 3 = Inr False"
    "within_radius ieee ?K ?W (Suc 0) 2 = Inr True"
    "within_radius ieee ?K ?W (Suc 0) 3 = Inr False"
    "within_radius ieee ?K ?W 2 3 = Inr True"
    using cell_at_within_radius [of 0 1 ?W 0 1 "Suc 0" 0 ?K]
      cell_at_within_radius [of 0 2 ?W 0 1 2 0 ?K]
      cell_at_within_radius [of 0 3 ?W 0 1 3 1 ?K]
      cell_at_within_radius [of 1 2 ?W "Suc 0" 0 2 0 ?K]
      cell_at_within_radius [of 1 3 ?W "Suc 0" 0 3 1 ?K]
      cell_at_within_radius [of 2 3 ?W 2 0 3 1 ?K]
    by (simp_all add: h r)
  have c: "calls (snd (snd (check_contacts ieee ?K (?M, ?W))))
      = calls ?W @ [(0, 1), (1, 2), (2, 3)]"
    by (simp add: check_contacts_scan apply_contacts_calls n)
  have u: "unordered [(2, 1), (3, 2), (1, 0)] = unordered [(0, 1), (1, 2), (2, 3)]"
    by (auto simp: unordered_def)
  have v: "is_vulnerable ?K (heap ?W 1)" "is_vulnerable ?K (heap ?W 2)"
    "\<not> is_vulnerable ?K (heap ?W 0)" "\<not> is_vulnerable ?K (heap ?W 3)"
    "is_infected ?K (heap ?W 0)" "is_infected ?K (heap ?W 3)"
    by (simp_all add: h is_vulnerable_def is_infected_def cell_at_sickness constants_of_def)
  have e1: "exposed ?K ?W [(0, 1), (1, 2), (2, 3)] 1"
    and e2: "exposed ?K ?W [(0, 1), (1, 2), (2, 3)] 2"
    using v by (simp_all add: exposed_def)
  have nv: "\<forall>(a, b) \<in> set [(0, 1), (1, 2), (2, 3)].
      is_vulnerable ?K (heap ?W a) \<and> is_vulnerable ?K (heap ?W b) \<longrightarrow>
        (exposed ?K ?W [(0, 1), (1, 2), (2, 3)] a \<longleftrightarrow> exposed ?K ?W [(0, 1), (1, 2), (2, 3)] b)"
    using v e1 e2 by simp
  show ?thesis
    using vi c u v(1,2) check_contacts_order_independent [OF vi c u nv, of 2] by (intro conjI)
qed

text \<open>
  Cells at \<open>x = 0, 1, 2\<close> with radius \<open>3/2\<close>, the first infected, the others vulnerable.
  \<^verbatim>\<open>check_contacts\<close> processes (0, 1) and then (1, 2) and all three end infected; in the
  order (1, 2), (0, 1) the third cell stays vulnerable.
\<close>

theorem check_contacts_order_independent_counterexample:
  "set [(0, 1), (1, 2)] = set [(1, 2), (0, 1 :: nat) :: nat \<times> nat] \<and>
   check_contacts ieee (constants_of 0 1 2 4)
      (\<lparr>population = [0, 1, 2], time = 0\<rparr>, world_of [cell_at 0 1, cell_at 1 0, cell_at 2 0])
     = (None, \<lparr>population = [0, 1, 2], time = 0\<rparr>,
        apply_contacts (constants_of 0 1 2 4) [(0, 1), (1, 2)]
          (world_of [cell_at 0 1, cell_at 1 0, cell_at 2 0])) \<and>
   sickness (heap (apply_contacts (constants_of 0 1 2 4) [(0, 1), (1, 2)]
      (world_of [cell_at 0 1, cell_at 1 0, cell_at 2 0])) 2) = 1 \<and>
   sickness (heap (apply_contacts (constants_of 0 1 2 4) [(1, 2), (0, 1)]
      (world_of [cell_at 0 1, cell_at 1 0, cell_at 2 0])) 2) = 0"
proof -
  let ?K = "constants_of 0 1 2 4"
  let ?M = "\<lparr>population = [0, 1, 2], time = 0\<rparr>"
  let ?W = "world_of [cell_at 0 1, cell_at 1 0, cell_at 2 0]"
  have h: "heap ?W 0 = cell_at 0 1" "heap ?W (Suc 0) = cell_at 1 0" "heap ?W 2 = cell_at 2 0"
    by (simp_all add: world_of_def)
  have r: "CELL_RADIUS ?K = 3 / 2" by (simp add: constants_of_def)
  have n: "within_radius ieee ?K ?W 0 (Suc 0) = Inr True"
    "within_radius ieee ?K ?W 0 2 = Inr False"
    "within_radius ieee ?K ?W (Suc 0) 2 = Inr True"
    using cell_at_within_radius [of 0 1 ?W 0 1 "Suc 0" 0 ?K]
      cell_at_within_radius [of 0 2 ?W 0 1 2 0 ?K]
      cell_at_within_radius [of 1 2 ?W "Suc 0" 0 2 0 ?K]
    by (simp_all add: h r)
  have run: "check_contacts ieee ?K (?M, ?W)
      = (None, ?M, apply_contacts ?K [(0, 1), (1, 2)] ?W)"
    by (simp add: check_contacts_scan n)
  have s: "set [(0, 1), (1, 2)] = set [(1, 2), (0, 1 :: nat) :: nat \<times> nat]" by auto
  have a: "sickness (heap (apply_contacts ?K [(0, 1), (1, 2)] ?W) 2) = 1"
    by (simp add: apply_contacts_Cons apply_contacts_Nil contact_with_sickness
        is_infected_def is_vulnerable_def h cell_at_sickness constants_of_def)
  have b: "sickness (heap (apply_contacts ?K [(1, 2), (0, 1)] ?W) 2) = 0"
    by (simp add: apply_contacts_Cons apply_contacts_Nil contact_with_sickness
        is_infected_def is_vulnerable_def h cell_at_sickness constants_of_def)
  show ?thesis using s run a b by (intro conjI)
qed

end
